theory Spec2Isabelle
  imports
    Complex_Main
    "HOL-Library.Word"
    "HOL-Library.Char_ord"
    "HOL-Library.List_Lexorder"
    "HOL-Library.Sublist"
    "HOL-Library.Multiset"
    "HOL-Library.Product_Lexorder"
    "HOL-Library.AList"
begin

unbundle bit_operations_syntax

section \<open>Python values\<close>

text \<open>
  The worker is Python. Its values are modelled as follows.

  \<^item> A \<^verbatim>\<open>str\<close> is a \<^typ>\<open>string\<close>: a list of code points below 256 (ASCII and
    Latin-1). The character classes below are those of Python 3 on that range. Comparison of
    strings (\<^verbatim>\<open><\<close>, \<^verbatim>\<open>max\<close>, \<^verbatim>\<open>sorted\<close>) is lexicographic
    by code point, which is the order of \<open>HOL-Library.List_Lexorder\<close> over
    \<open>HOL-Library.Char_ord\<close>.
  \<^item> A \<^verbatim>\<open>float\<close> is a \<^typ>\<open>real\<close>: rounding error, infinities and NaN are not
    modelled.
  \<^item> An \<^verbatim>\<open>int\<close> is an \<^typ>\<open>int\<close>.
  \<^item> A dictionary key that may be absent is an \<^typ>\<open>'a option\<close> field.
  \<^item> An exception is a value of \<open>error\<close>; a function that can raise returns
    \<open>error + 'a\<close>.
\<close>

datatype error = ValueError | IndexError | OverflowError

text \<open>\<^verbatim>\<open>str.isspace\<close>, which is also what \<^verbatim>\<open>str.strip()\<close> removes and what
  \<^verbatim>\<open>\s\<close> matches in a \<^verbatim>\<open>re\<close> pattern over \<^verbatim>\<open>str\<close>.\<close>

definition py_isspace :: "char \<Rightarrow> bool" where
  "py_isspace c =
    (let n = (of_char c :: nat) in (9 \<le> n \<and> n \<le> 13) \<or> (28 \<le> n \<and> n \<le> 32) \<or> n = 133 \<or> n = 160)"

definition py_strip :: "string \<Rightarrow> string" where
  "py_strip s = rev (dropWhile py_isspace (rev (dropWhile py_isspace s)))"

text \<open>\<^verbatim>\<open>str.lower()\<close>: A-Z and the Latin-1 capitals (all of U+00C0..U+00DE but the
  multiplication sign U+00D7) move up by 32.\<close>

definition py_lower_char :: "char \<Rightarrow> char" where
  "py_lower_char c =
    (let n = (of_char c :: nat) in
     if (65 \<le> n \<and> n \<le> 90) \<or> (192 \<le> n \<and> n \<le> 222 \<and> n \<noteq> 215) then char_of (n + 32) else c)"

definition py_lower :: "string \<Rightarrow> string" where
  "py_lower s = map py_lower_char s"

text \<open>The class \<^verbatim>\<open>[a-zA-Z]\<close>.\<close>

definition is_ascii_alpha :: "char \<Rightarrow> bool" where
  "is_ascii_alpha c = (let n = (of_char c :: nat) in (65 \<le> n \<and> n \<le> 90) \<or> (97 \<le> n \<and> n \<le> 122))"

text \<open>The class \<^verbatim>\<open>\w\<close> of \<^verbatim>\<open>re\<close> over \<^verbatim>\<open>str\<close>: alphanumeric code points
  and the underscore.\<close>

definition is_word_char :: "char \<Rightarrow> bool" where
  "is_word_char c =
    (let n = (of_char c :: nat) in
       (48 \<le> n \<and> n \<le> 57) \<or> (65 \<le> n \<and> n \<le> 90) \<or> n = 95 \<or> (97 \<le> n \<and> n \<le> 122)
     \<or> n = 170 \<or> n = 178 \<or> n = 179 \<or> n = 181 \<or> n = 185 \<or> n = 186 \<or> (188 \<le> n \<and> n \<le> 190)
     \<or> (192 \<le> n \<and> n \<le> 214) \<or> (216 \<le> n \<and> n \<le> 246) \<or> (248 \<le> n \<and> n \<le> 255))"

text \<open>\<^verbatim>\<open>sep.join(parts)\<close>.\<close>

fun join :: "string \<Rightarrow> string list \<Rightarrow> string" where
  "join sep [] = []"
| "join sep [x] = x"
| "join sep (x # y # ys) = x @ sep @ join sep (y # ys)"

text \<open>\<^verbatim>\<open>d.get(key, default)\<close> for an optional field.\<close>

definition get_default :: "'a option \<Rightarrow> 'a \<Rightarrow> 'a" where
  "get_default v d = (case v of None \<Rightarrow> d | Some x \<Rightarrow> x)"

section \<open>Bytes and digests\<close>

type_synonym u8 = "8 word"
type_synonym u32 = "32 word"

text \<open>\<^verbatim>\<open>str.encode()\<close>: UTF-8. A code point below 128 is one byte, one from 128 to 255
  is two.\<close>

definition utf8_char :: "char \<Rightarrow> u8 list" where
  "utf8_char c =
    (let n = (of_char c :: nat) in
     if n < 128 then [word_of_nat n] else [word_of_nat (192 + n div 64), word_of_nat (128 + n mod 64)])"

definition encode :: "string \<Rightarrow> u8 list" where
  "encode s = concat (map utf8_char s)"

fun le_word :: "u8 list \<Rightarrow> u32" where
  "le_word [] = 0"
| "le_word (b # bs) = ucast b OR push_bit 8 (le_word bs)"

fun le_bytes :: "nat \<Rightarrow> 'a::len word \<Rightarrow> u8 list" where
  "le_bytes 0 w = []"
| "le_bytes (Suc k) w = ucast w # le_bytes k (drop_bit 8 w)"

definition blocks64 :: "u8 list \<Rightarrow> u8 list list" where
  "blocks64 bs = map (\<lambda>j. take 64 (drop (64 * j) bs)) [0..<length bs div 64]"

definition hex_digit :: "u8 \<Rightarrow> char" where
  "hex_digit n = ''0123456789abcdef'' ! unat (n AND 0xf)"

definition hex_byte :: "u8 \<Rightarrow> string" where
  "hex_byte b = [hex_digit (drop_bit 4 b), hex_digit b]"

definition rotl32 :: "u32 \<Rightarrow> nat \<Rightarrow> u32" where
  "rotl32 x n = push_bit n x OR drop_bit (32 - n) x"

subsection \<open>MD5 (\<^verbatim>\<open>hashlib.md5(b).hexdigest()\<close>, RFC 1321)\<close>

definition md5_K :: "u32 list" where
  "md5_K =
    [0xd76aa478, 0xe8c7b756, 0x242070db, 0xc1bdceee, 0xf57c0faf, 0x4787c62a, 0xa8304613, 0xfd469501,
     0x698098d8, 0x8b44f7af, 0xffff5bb1, 0x895cd7be, 0x6b901122, 0xfd987193, 0xa679438e, 0x49b40821,
     0xf61e2562, 0xc040b340, 0x265e5a51, 0xe9b6c7aa, 0xd62f105d, 0x02441453, 0xd8a1e681, 0xe7d3fbc8,
     0x21e1cde6, 0xc33707d6, 0xf4d50d87, 0x455a14ed, 0xa9e3e905, 0xfcefa3f8, 0x676f02d9, 0x8d2a4c8a,
     0xfffa3942, 0x8771f681, 0x6d9d6122, 0xfde5380c, 0xa4beea44, 0x4bdecfa9, 0xf6bb4b60, 0xbebfbc70,
     0x289b7ec6, 0xeaa127fa, 0xd4ef3085, 0x04881d05, 0xd9d4d039, 0xe6db99e5, 0x1fa27cf8, 0xc4ac5665,
     0xf4292244, 0x432aff97, 0xab9423a7, 0xfc93a039, 0x655b59c3, 0x8f0ccc92, 0xffeff47d, 0x85845dd1,
     0x6fa87e4f, 0xfe2ce6e0, 0xa3014314, 0x4e0811a1, 0xf7537e82, 0xbd3af235, 0x2ad7d2bb, 0xeb86d391]"

definition md5_s :: "nat list" where
  "md5_s =
    [7, 12, 17, 22, 7, 12, 17, 22, 7, 12, 17, 22, 7, 12, 17, 22,
     5, 9, 14, 20, 5, 9, 14, 20, 5, 9, 14, 20, 5, 9, 14, 20,
     4, 11, 16, 23, 4, 11, 16, 23, 4, 11, 16, 23, 4, 11, 16, 23,
     6, 10, 15, 21, 6, 10, 15, 21, 6, 10, 15, 21, 6, 10, 15, 21]"

fun md5_step :: "u32 list \<Rightarrow> u32 \<times> u32 \<times> u32 \<times> u32 \<Rightarrow> nat \<Rightarrow> u32 \<times> u32 \<times> u32 \<times> u32" where
  "md5_step M (A, B, C, D) i =
    (let F = (if i < 16 then (B AND C) OR (NOT B AND D)
              else if i < 32 then (D AND B) OR (NOT D AND C)
              else if i < 48 then B XOR C XOR D
              else C XOR (B OR NOT D));
         g = (if i < 16 then i
              else if i < 32 then (5 * i + 1) mod 16
              else if i < 48 then (3 * i + 5) mod 16
              else (7 * i) mod 16);
         F' = F + A + md5_K ! i + M ! g
     in (D, B + rotl32 F' (md5_s ! i), B, C))"

definition md5_block_words :: "u8 list \<Rightarrow> u32 list" where
  "md5_block_words blk = map (\<lambda>j. le_word (take 4 (drop (4 * j) blk))) [0..<16]"

fun md5_block :: "u32 \<times> u32 \<times> u32 \<times> u32 \<Rightarrow> u8 list \<Rightarrow> u32 \<times> u32 \<times> u32 \<times> u32" where
  "md5_block (a0, b0, c0, d0) blk =
    (case foldl (md5_step (md5_block_words blk)) (a0, b0, c0, d0) [0..<64] of
       (A, B, C, D) \<Rightarrow> (a0 + A, b0 + B, c0 + C, d0 + D))"

definition md5_pad :: "u8 list \<Rightarrow> u8 list" where
  "md5_pad msg =
    msg @ [0x80] @ replicate ((119 - length msg mod 64) mod 64) 0
      @ le_bytes 8 (8 * (word_of_nat (length msg) :: 64 word))"

definition md5_hexdigest :: "u8 list \<Rightarrow> string" where
  "md5_hexdigest msg =
    (case foldl md5_block (0x67452301, 0xefcdab89, 0x98badcfe, 0x10325476) (blocks64 (md5_pad msg)) of
       (a, b, c, d) \<Rightarrow> concat (map hex_byte (concat (map (le_bytes 4) [a, b, c, d]))))"

section \<open>The deduplicator (\<^verbatim>\<open>sources/rss_feeds.py\<close>)\<close>

text \<open>An article is a dictionary; the deduplicator reads \<^verbatim>\<open>url\<close> and \<^verbatim>\<open>title\<close>, the
  grouping engine also \<^verbatim>\<open>source.name\<close> and \<^verbatim>\<open>publishedAt\<close>. \<open>None\<close> is an absent
  key.\<close>

record article =
  a_title :: "string option"
  a_description :: "string option"
  a_url :: "string option"
  a_source_name :: "string option"
  a_publishedAt :: "string option"

definition normalize_url :: "string \<Rightarrow> string" where
  "normalize_url url = (if CHR ''?'' \<in> set url then takeWhile (\<lambda>c. c \<noteq> CHR ''?'') url else url)"

definition STOP_WORDS :: "string list" where
  "STOP_WORDS =
    [''the'', ''a'', ''an'', ''and'', ''or'', ''but'', ''in'', ''on'', ''at'', ''to'', ''for'',
     ''of'', ''with'', ''by'', ''from'', ''as'', ''is'', ''was'', ''are'', ''were'', ''been'',
     ''be'', ''have'', ''has'', ''had'', ''do'', ''does'', ''did'', ''will'', ''would'',
     ''could'', ''should'', ''may'', ''might'', ''must'', ''shall'', ''can'', ''need'',
     ''says'', ''said'', ''say'', ''tells'', ''told'', ''report'', ''reports'', ''reported'',
     ''news'', ''breaking'', ''update'', ''latest'', ''new'', ''after'', ''before'']"

definition WORD_NORMALIZE :: "(string \<times> string) list" where
  "WORD_NORMALIZE =
    [(''ukraine'', ''ukraine''), (''ukrainian'', ''ukraine''), (''ukrainians'', ''ukraine''), (''kyiv'', ''ukraine''),
     (''russia'', ''russia''), (''russian'', ''russia''), (''russians'', ''russia''), (''moscow'', ''russia''), (''putin'', ''russia''),
     (''israel'', ''israel''), (''israeli'', ''israel''), (''israelis'', ''israel''), (''idf'', ''israel''),
     (''gaza'', ''palestine''), (''palestinian'', ''palestine''), (''palestinians'', ''palestine''), (''hamas'', ''palestine''),
     (''china'', ''china''), (''chinese'', ''china''), (''beijing'', ''china''),
     (''iran'', ''iran''), (''iranian'', ''iran''), (''tehran'', ''iran''),
     (''syria'', ''syria''), (''syrian'', ''syria''), (''damascus'', ''syria''),
     (''attack'', ''attack''), (''attacks'', ''attack''), (''attacked'', ''attack''),
     (''strike'', ''strike''), (''strikes'', ''strike''), (''struck'', ''strike''),
     (''kill'', ''kill''), (''kills'', ''kill''), (''killed'', ''kill''), (''killing'', ''kill''),
     (''force'', ''force''), (''forces'', ''force''),
     (''troop'', ''troop''), (''troops'', ''troop''),
     (''missile'', ''missile''), (''missiles'', ''missile''), (''rocket'', ''missile''), (''rockets'', ''missile''),
     (''bomb'', ''bomb''), (''bombs'', ''bomb''), (''bombing'', ''bomb''), (''bombed'', ''bomb''),
     (''protest'', ''protest''), (''protests'', ''protest''), (''protester'', ''protest''), (''protesters'', ''protest'')]"

text \<open>The maximal runs of characters satisfying \<open>p\<close>, left to right; \<open>cur\<close> is the run
  being read, reversed.\<close>

fun runs :: "(char \<Rightarrow> bool) \<Rightarrow> string \<Rightarrow> string \<Rightarrow> string list" where
  "runs p cur [] = (if cur = [] then [] else [rev cur])"
| "runs p cur (c # cs) =
    (if p c then runs p (c # cur) cs
     else (if cur = [] then [] else [rev cur]) @ runs p [] cs)"

text \<open>\<^verbatim>\<open>re.findall(r'\b[a-zA-Z]{3,}\b', s)\<close>. A match starts and ends at a word boundary,
  so it is a maximal run of \<^verbatim>\<open>\w\<close> characters; the run matches when it has at least
  three characters and all are ASCII letters (a run with a digit, an underscore or an accented
  letter gives no match at all, since no shorter stretch of it ends at a boundary).\<close>

definition findall_words :: "string \<Rightarrow> string list" where
  "findall_words s = filter (\<lambda>w. 3 \<le> length w \<and> list_all is_ascii_alpha w) (runs is_word_char [] s)"

definition normalize_word :: "string \<Rightarrow> string" where
  "normalize_word w = get_default (map_of WORD_NORMALIZE w) w"

definition extract_keywords :: "string \<Rightarrow> string set" where
  "extract_keywords title =
    set (map normalize_word (filter (\<lambda>w. w \<notin> set STOP_WORDS) (findall_words (py_lower title))))"

definition title_hash :: "string \<Rightarrow> string" where
  "title_hash title =
    take 16 (md5_hexdigest (encode (join '' '' (sorted_list_of_set (extract_keywords title)))))"

text \<open>The Jaccard test of two keyword sets, as both \<^verbatim>\<open>titles_similar\<close> and layer 3 of
  \<^verbatim>\<open>dedupe_articles\<close> write it.\<close>

definition jaccard_ge :: "string set \<Rightarrow> string set \<Rightarrow> real \<Rightarrow> bool" where
  "jaccard_ge a b threshold =
    (let intersection = card (a \<inter> b); union = card (a \<union> b)
     in union > 0 \<and> real intersection / real union \<ge> threshold)"

definition titles_similar :: "string \<Rightarrow> string \<Rightarrow> real \<Rightarrow> bool" where
  "titles_similar title_a title_b threshold =
    (let kw_a = extract_keywords title_a; kw_b = extract_keywords title_b in
     if kw_a = {} \<or> kw_b = {} then False
     else (let intersection = card (kw_a \<inter> kw_b); union = card (kw_a \<union> kw_b);
               similarity = (if union > 0 then real intersection / real union else 0)
           in similarity \<ge> threshold))"

record dedupe_state =
  seen_urls :: "string set"
  seen_title_hashes :: "string set"
  seen_keywords :: "string set list"
  unique :: "article list"

definition dedupe_init :: dedupe_state where
  "dedupe_init = \<lparr>seen_urls = {}, seen_title_hashes = {}, seen_keywords = [], unique = []\<rparr>"

text \<open>One turn of the loop of \<^verbatim>\<open>dedupe_articles\<close>.\<close>

definition dedupe_step :: "real \<Rightarrow> dedupe_state \<Rightarrow> article \<Rightarrow> dedupe_state" where
  "dedupe_step similarity_threshold st article =
    (let url = get_default (a_url article) '''';
         title = get_default (a_title article) '''';
         url_normalized = normalize_url url in
     if url_normalized \<in> seen_urls st then st
     else let title_h = title_hash title in
     if title_h \<in> seen_title_hashes st then st
     else let keywords = extract_keywords title in
     if keywords \<noteq> {} then
       (if list_ex (\<lambda>seen_kw. jaccard_ge keywords seen_kw similarity_threshold) (seen_keywords st)
        then st
        else st\<lparr>seen_urls := insert url_normalized (seen_urls st),
                 seen_title_hashes := insert title_h (seen_title_hashes st),
                 seen_keywords := seen_keywords st @ [keywords],
                 unique := unique st @ [article]\<rparr>)
     else st\<lparr>seen_urls := insert url_normalized (seen_urls st),
              seen_title_hashes := insert title_h (seen_title_hashes st),
              unique := unique st @ [article]\<rparr>)"

definition dedupe_articles :: "article list \<Rightarrow> real \<Rightarrow> article list" where
  "dedupe_articles articles similarity_threshold =
    unique (foldl (dedupe_step similarity_threshold) dedupe_init articles)"

text \<open>What the three layers compare: an article \<open>a\<close> duplicates a kept article \<open>k\<close> when
  the normalized URLs agree, or the title hashes agree, or both keyword sets are non-empty and
  pass the Jaccard test.\<close>

definition article_url :: "article \<Rightarrow> string" where
  "article_url a = normalize_url (get_default (a_url a) '''')"

definition article_title :: "article \<Rightarrow> string" where
  "article_title a = get_default (a_title a) ''''"

definition duplicates :: "real \<Rightarrow> article \<Rightarrow> article \<Rightarrow> bool" where
  "duplicates threshold k a =
    (article_url a = article_url k
     \<or> title_hash (article_title a) = title_hash (article_title k)
     \<or> (extract_keywords (article_title a) \<noteq> {} \<and> extract_keywords (article_title k) \<noteq> {}
        \<and> jaccard_ge (extract_keywords (article_title a)) (extract_keywords (article_title k)) threshold))"

text \<open>The loop state after the articles \<open>kept\<close> have been kept.\<close>

definition dedupe_state_of :: "article list \<Rightarrow> dedupe_state" where
  "dedupe_state_of kept =
    \<lparr>seen_urls = set (map article_url kept),
     seen_title_hashes = set (map (\<lambda>k. title_hash (article_title k)) kept),
     seen_keywords = filter (\<lambda>kw. kw \<noteq> {}) (map (\<lambda>k. extract_keywords (article_title k)) kept),
     unique = kept\<rparr>"

text \<open>First-fit filtering: what the loop keeps of \<open>xs\<close> once \<open>kept\<close> has been kept.\<close>

fun kept_after :: "real \<Rightarrow> article list \<Rightarrow> article list \<Rightarrow> article list" where
  "kept_after threshold kept [] = []"
| "kept_after threshold kept (x # xs) =
    (if list_ex (\<lambda>k. duplicates threshold k x) kept then kept_after threshold kept xs
     else x # kept_after threshold (kept @ [x]) xs)"

text \<open>
  Three articles: the second repeats the title of the first under a new URL, the third has
  the URL of the second and an unrelated title. The second is dropped by its title hash, and
  a dropped article registers nothing, so the third, whose URL was seen only on the dropped
  one, is kept.
\<close>

definition gaza_1 :: article where
  "gaza_1 = \<lparr>a_title = Some ''Gaza strike'', a_description = None, a_url = Some ''https://a.com/1'',
             a_source_name = Some ''Source A'', a_publishedAt = None\<rparr>"

definition gaza_2 :: article where
  "gaza_2 = \<lparr>a_title = Some ''Gaza strike'', a_description = None, a_url = Some ''https://b.com/2'',
             a_source_name = Some ''Source B'', a_publishedAt = None\<rparr>"

definition china_2 :: article where
  "china_2 = \<lparr>a_title = Some ''China economy'', a_description = None, a_url = Some ''https://b.com/2'',
              a_source_name = Some ''Source B'', a_publishedAt = None\<rparr>"

section \<open>The worker (\<^verbatim>\<open>main.py\<close>)\<close>

subsection \<open>SHA-256 (\<^verbatim>\<open>hashlib.sha256(b).hexdigest()\<close>, FIPS 180-4)\<close>

text \<open>The round constants and the initial hash value are written in decimal.\<close>

definition sha256_K :: "u32 list" where
  "sha256_K =
    [1116352408, 1899447441, 3049323471, 3921009573, 961987163, 1508970993, 2453635748, 2870763221,
     3624381080, 310598401, 607225278, 1426881987, 1925078388, 2162078206, 2614888103, 3248222580,
     3835390401, 4022224774, 264347078, 604807628, 770255983, 1249150122, 1555081692, 1996064986,
     2554220882, 2821834349, 2952996808, 3210313671, 3336571891, 3584528711, 113926993, 338241895,
     666307205, 773529912, 1294757372, 1396182291, 1695183700, 1986661051, 2177026350, 2456956037,
     2730485921, 2820302411, 3259730800, 3345764771, 3516065817, 3600352804, 4094571909, 275423344,
     430227734, 506948616, 659060556, 883997877, 958139571, 1322822218, 1537002063, 1747873779,
     1955562222, 2024104815, 2227730452, 2361852424, 2428436474, 2756734187, 3204031479, 3329325298]"

definition rotr32 :: "u32 \<Rightarrow> nat \<Rightarrow> u32" where
  "rotr32 x n = drop_bit n x OR push_bit (32 - n) x"

fun be_word :: "u8 list \<Rightarrow> u32" where
  "be_word bs = le_word (rev bs)"

definition be_bytes :: "nat \<Rightarrow> 'a::len word \<Rightarrow> u8 list" where
  "be_bytes k w = rev (le_bytes k w)"

definition sha256_schedule :: "u8 list \<Rightarrow> u32 list" where
  "sha256_schedule blk =
    foldl (\<lambda>W t. W @ [(rotr32 (W ! (t - 2)) 17 XOR rotr32 (W ! (t - 2)) 19 XOR drop_bit 10 (W ! (t - 2)))
                       + W ! (t - 7)
                       + (rotr32 (W ! (t - 15)) 7 XOR rotr32 (W ! (t - 15)) 18 XOR drop_bit 3 (W ! (t - 15)))
                       + W ! (t - 16)])
      (map (\<lambda>j. be_word (take 4 (drop (4 * j) blk))) [0..<16]) [16..<64]"

type_synonym sha256_state = "u32 \<times> u32 \<times> u32 \<times> u32 \<times> u32 \<times> u32 \<times> u32 \<times> u32"

fun sha256_round :: "u32 list \<Rightarrow> sha256_state \<Rightarrow> nat \<Rightarrow> sha256_state" where
  "sha256_round W (a, b, c, d, e, f, g, h) t =
    (let T1 = h + (rotr32 e 6 XOR rotr32 e 11 XOR rotr32 e 25) + ((e AND f) XOR (NOT e AND g))
                + sha256_K ! t + W ! t;
         T2 = (rotr32 a 2 XOR rotr32 a 13 XOR rotr32 a 22) + ((a AND b) XOR (a AND c) XOR (b AND c))
     in (T1 + T2, a, b, c, d + T1, e, f, g))"

fun sha256_block :: "sha256_state \<Rightarrow> u8 list \<Rightarrow> sha256_state" where
  "sha256_block (a0, b0, c0, d0, e0, f0, g0, h0) blk =
    (case foldl (sha256_round (sha256_schedule blk)) (a0, b0, c0, d0, e0, f0, g0, h0) [0..<64] of
       (a, b, c, d, e, f, g, h) \<Rightarrow> (a0 + a, b0 + b, c0 + c, d0 + d, e0 + e, f0 + f, g0 + g, h0 + h))"

definition sha256_pad :: "u8 list \<Rightarrow> u8 list" where
  "sha256_pad msg =
    msg @ [0x80] @ replicate ((119 - length msg mod 64) mod 64) 0
      @ be_bytes 8 (8 * (word_of_nat (length msg) :: 64 word))"

definition sha256_hexdigest :: "u8 list \<Rightarrow> string" where
  "sha256_hexdigest msg =
    (case foldl sha256_block
            (1779033703, 3144134277, 1013904242, 2773480762, 1359893119, 2600822924, 528734635, 1541459225)
            (blocks64 (sha256_pad msg)) of
       (a, b, c, d, e, f, g, h) \<Rightarrow>
         concat (map hex_byte (concat (map (be_bytes 4) [a, b, c, d, e, f, g, h]))))"

subsection \<open>Floats\<close>

text \<open>
  A \<^verbatim>\<open>float\<close> is taken as the real number it stands for; NaN and the infinities are left
  out. Comparing two floats is exact. The arithmetic of binary64 rounds, so the operations
  the code uses are parameters of the model, of which nothing is assumed: \<^verbatim>\<open>-\<close>, \<^verbatim>\<open>+\<close>,
  \<^verbatim>\<open>*\<close>, \<^verbatim>\<open>/\<close>, \<^verbatim>\<open>** 2\<close> and \<^verbatim>\<open>math.sqrt\<close>. An \<^verbatim>\<open>int\<close> that meets a float is
  converted first, which is exact for the counts that occur. A decimal literal stands for the
  binary64 number nearest to it: \<^verbatim>\<open>0.1\<close> is \<open>3602879701896397 / 2\<^sup>5\<^sup>5\<close> and \<^verbatim>\<open>0.3\<close> is
  \<open>5404319552844595 / 2\<^sup>5\<^sup>4\<close>, while \<^verbatim>\<open>0.5\<close> and \<^verbatim>\<open>1.0\<close> are exact.
\<close>

record float_ops =
  fsub :: "real \<Rightarrow> real \<Rightarrow> real"
  fadd :: "real \<Rightarrow> real \<Rightarrow> real"
  fmul :: "real \<Rightarrow> real \<Rightarrow> real"
  fdiv :: "real \<Rightarrow> real \<Rightarrow> real"
  fsquare :: "real \<Rightarrow> real"
  fsqrt :: "real \<Rightarrow> real"

text \<open>Arithmetic without rounding. Binary64 agrees with it wherever the exact result of every
  step is a binary64 number.\<close>

definition exact_arithmetic :: float_ops where
  "exact_arithmetic =
    \<lparr>fsub = (\<lambda>x y. x - y), fadd = (\<lambda>x y. x + y), fmul = (\<lambda>x y. x * y), fdiv = (\<lambda>x y. x / y),
     fsquare = (\<lambda>x. x * x), fsqrt = sqrt\<rparr>"

subsection \<open>Configuration\<close>

definition GROUPING_DISTANCE_DEGREES :: "(string \<times> real) list" where
  "GROUPING_DISTANCE_DEGREES =
    [(''MILITARY'', 3602879701896397 / 36028797018963968), (''DIPLOMACY'', 1 / 2),
     (''ECONOMY'', 1 / 2), (''UNREST'', 5404319552844595 / 18014398509481984)]"

definition GROUPING_DISTANCE_DEFAULT :: real where
  "GROUPING_DISTANCE_DEFAULT = 1 / 2"

definition GROUPING_TIME_HOURS :: int where
  "GROUPING_TIME_HOURS = 12"

definition MAX_EVENTS :: nat where
  "MAX_EVENTS = 500"

definition SEVERITY_BONUS_HOURS :: "(int \<times> int) list" where
  "SEVERITY_BONUS_HOURS = [(10, 168), (9, 120), (8, 72), (7, 48)]"

definition SOURCE_CREDIBILITY :: "(string \<times> int) list" where
  "SOURCE_CREDIBILITY =
    [(''associated press'', 3), (''ap'', 3), (''ap news'', 3), (''reuters'', 3), (''afp'', 3),
     (''agence france-presse'', 3), (''bbc'', 3), (''bbc news'', 3), (''bbc world'', 3),
     (''al jazeera'', 3), (''al jazeera english'', 3), (''npr'', 3), (''pbs'', 3),
     (''pbs newshour'', 3), (''the guardian'', 2), (''guardian'', 2), (''new york times'', 2),
     (''nyt'', 2), (''ny times'', 2), (''washington post'', 2), (''the economist'', 2),
     (''economist'', 2), (''financial times'', 2), (''ft'', 2), (''wall street journal'', 2),
     (''wsj'', 2), (''deutsche welle'', 2), (''dw'', 2), (''france24'', 2), (''france 24'', 2),
     (''abc news'', 2), (''cbs news'', 2), (''nbc news'', 2), (''cnn'', 2), (''politico'', 2),
     (''the hill'', 2), (''axios'', 2), (''south china morning post'', 1), (''scmp'', 1),
     (''times of israel'', 1), (''the hindu'', 1), (''kyiv independent'', 1),
     (''jerusalem post'', 1), (''haaretz'', 1), (''japan times'', 1), (''straits times'', 1),
     (''the irish times'', 1), (''yahoo news'', 1), (''yahoo'', 1), (''business insider'', 1),
     (''new york magazine'', 1), (''the new yorker'', 1), (''the new republic'', 1),
     (''foreign policy'', 1), (''foreign affairs'', 1), (''sputnik'', -1), (''sputnikglobe'', -1),
     (''sputnik news'', -1), (''rt'', -1), (''russia today'', -1), (''global times'', -1),
     (''press tv'', -1), (''activistpost'', -1), (''zerohedge'', -1), (''infowars'', -1),
     (''natural news'', -1), (''the gateway pundit'', -1), (''breitbart'', -1),
     (''yahoo entertainment'', -1), (''dalenareporters'', -1), (''freerepublic'', -1)]"

subsection \<open>Credibility and identifiers\<close>

text \<open>\<^verbatim>\<open>a in b\<close> on strings is \<^const>\<open>sublist\<close>. The partial match walks the table in
  the order of the dictionary literal and returns at the first hit. The argument is \<open>None\<close>
  when the article has no source name.\<close>

definition partial_match :: "string \<Rightarrow> string \<times> int \<Rightarrow> bool" where
  "partial_match name_lower entry = (sublist (fst entry) name_lower \<or> sublist name_lower (fst entry))"

definition get_source_credibility :: "string option \<Rightarrow> int" where
  "get_source_credibility source_name =
    (case source_name of
       None \<Rightarrow> 0
     | Some name \<Rightarrow>
         if name = [] then 0
         else (let name_lower = py_strip (py_lower name) in
               case map_of SOURCE_CREDIBILITY name_lower of
                 Some score \<Rightarrow> score
               | None \<Rightarrow>
                   (case find (partial_match name_lower) SOURCE_CREDIBILITY of
                      Some entry \<Rightarrow> snd entry
                    | None \<Rightarrow> 0)))"

definition generate_source_id :: "string \<Rightarrow> string option \<Rightarrow> string" where
  "generate_source_id title source_url =
    (let normalized_title = (if title \<noteq> [] then py_strip (py_lower title) else []);
         content = normalized_title @ ''|'' @ get_default source_url ''''
     in take 16 (sha256_hexdigest (encode content)))"

definition get_grouping_distance :: "string \<Rightarrow> real" where
  "get_grouping_distance category =
    get_default (map_of GROUPING_DISTANCE_DEGREES category) GROUPING_DISTANCE_DEFAULT"

subsection \<open>Timestamps\<close>

text \<open>
  A timestamp is an ISO 8601 string. The code orders timestamps as strings and measures
  distances between them after \<^verbatim>\<open>datetime.fromisoformat(ts.replace("Z", "+00:00"))\<close>.
  The parser belongs to the Python runtime, so it is a parameter \<open>fromisoformat\<close> of the
  model: it returns \<open>None\<close> where the runtime raises \<^verbatim>\<open>ValueError\<close>, else the fields of
  the \<^verbatim>\<open>datetime\<close>. Only timezone-aware values are modelled (every timestamp the pipeline
  writes carries an offset); \<open>utcoffset\<close> is in microseconds.
\<close>

record datetime =
  year :: int
  month :: int
  day :: int
  hour :: int
  minute :: int
  second :: int
  microsecond :: int
  utcoffset :: int

type_synonym parser = "string \<Rightarrow> datetime option"

definition replace_Z :: "string \<Rightarrow> string" where
  "replace_Z s = concat (map (\<lambda>c. if c = CHR ''Z'' then ''+00:00'' else [c]) s)"

definition parse_timestamp :: "parser \<Rightarrow> string \<Rightarrow> datetime option" where
  "parse_timestamp fromisoformat timestamp = fromisoformat (replace_Z timestamp)"

text \<open>The proleptic Gregorian ordinal of a date, as \<^verbatim>\<open>datetime.toordinal\<close> computes it.\<close>

definition is_leap :: "int \<Rightarrow> bool" where
  "is_leap y = (y mod 4 = 0 \<and> (y mod 100 \<noteq> 0 \<or> y mod 400 = 0))"

definition days_before_year :: "int \<Rightarrow> int" where
  "days_before_year y = (y - 1) * 365 + (y - 1) div 4 - (y - 1) div 100 + (y - 1) div 400"

definition days_before_month :: "int \<Rightarrow> int \<Rightarrow> int" where
  "days_before_month y m =
    [0, 31, 59, 90, 120, 151, 181, 212, 243, 273, 304, 334] ! nat (m - 1)
      + (if m > 2 \<and> is_leap y then 1 else 0)"

definition toordinal :: "datetime \<Rightarrow> int" where
  "toordinal dt = days_before_year (year dt) + days_before_month (year dt) (month dt) + day dt"

text \<open>Microseconds on the wall clock since the start of day 0, and on the UTC time line.\<close>

definition wall_us :: "datetime \<Rightarrow> int" where
  "wall_us dt =
    (((toordinal dt * 24 + hour dt) * 60 + minute dt) * 60 + second dt) * 1000000 + microsecond dt"

definition utc_us :: "datetime \<Rightarrow> int" where
  "utc_us dt = wall_us dt - utcoffset dt"

text \<open>\<^verbatim>\<open>abs((a - b).total_seconds()) / 3600\<close>, in microseconds.\<close>

definition abs_diff_us :: "datetime \<Rightarrow> datetime \<Rightarrow> int" where
  "abs_diff_us a b = \<bar>utc_us a - utc_us b\<bar>"

definition hours_us :: "int \<Rightarrow> int" where
  "hours_us h = h * 3600 * 1000000"

subsection \<open>Records of the pipeline\<close>

record enriched_article =
  ea_location_name :: string
  ea_category :: string
  ea_severity :: int
  ea_summary :: string
  ea_is_geopolitical :: bool
  ea_latitude :: real
  ea_longitude :: real

record event_source =
  es_id :: string
  es_headline :: string
  es_summary :: string
  es_source_name :: string
  es_source_url :: string
  es_timestamp :: string

record synthesized_event =
  se_title :: string
  se_summary :: string
  se_fallout_prediction :: string
  se_severity :: int

record incident_group =
  ig_category :: string
  ig_lng :: real
  ig_lat :: real
  ig_location_name :: string
  ig_sources :: "event_source list"
  ig_severities :: "int list"

text \<open>A persisted event is a dictionary read from JSON: \<^verbatim>\<open>last_updated\<close> and
  \<^verbatim>\<open>_last_synthesis_count\<close> may be absent. A \<^verbatim>\<open>GeoEvent\<close> is a validated object with
  every field present.\<close>

record event =
  ev_id :: string
  ev_title :: string
  ev_category :: string
  ev_coordinates :: "real \<times> real"
  ev_location_name :: string
  ev_region :: string
  ev_severity :: int
  ev_summary :: string
  ev_timestamp :: string
  ev_last_updated :: "string option"
  ev_fallout_prediction :: string
  ev_sources :: "event_source list"
  ev_last_synthesis_count :: "int option"

record geo_event =
  ge_id :: string
  ge_title :: string
  ge_category :: string
  ge_coordinates :: "real \<times> real"
  ge_location_name :: string
  ge_region :: string
  ge_severity :: int
  ge_summary :: string
  ge_timestamp :: string
  ge_last_updated :: string
  ge_fallout_prediction :: string
  ge_sources :: "event_source list"

definition model_dump :: "geo_event \<Rightarrow> event" where
  "model_dump e =
    \<lparr>ev_id = ge_id e, ev_title = ge_title e, ev_category = ge_category e,
     ev_coordinates = ge_coordinates e, ev_location_name = ge_location_name e,
     ev_region = ge_region e, ev_severity = ge_severity e, ev_summary = ge_summary e,
     ev_timestamp = ge_timestamp e, ev_last_updated = Some (ge_last_updated e),
     ev_fallout_prediction = ge_fallout_prediction e, ev_sources = ge_sources e,
     ev_last_synthesis_count = None\<rparr>"

subsection \<open>Validators of \<^verbatim>\<open>SynthesizedEvent\<close>\<close>

definition clamp_severity :: "int \<Rightarrow> int" where
  "clamp_severity v = max 1 (min 10 v)"

text \<open>\<^verbatim>\<open>re.sub(r'\s+', ' ', text)\<close>; \<open>in_space\<close> says that the previous character was
  white space.\<close>

fun collapse_spaces :: "bool \<Rightarrow> string \<Rightarrow> string" where
  "collapse_spaces in_space [] = []"
| "collapse_spaces in_space (c # cs) =
    (if py_isspace c then (if in_space then collapse_spaces True cs else CHR '' '' # collapse_spaces True cs)
     else c # collapse_spaces False cs)"

text \<open>\<^verbatim>\<open>_clean_text\<close>: strip; delete the code points outside the kept ranges (below 256
  these are 128 to 191); collapse white space; delete the trailing run of commas, semicolons,
  colons and white space; strip.\<close>

definition clean_text :: "string \<Rightarrow> string" where
  "clean_text text =
    (let t1 = py_strip text;
         t2 = filter (\<lambda>c. (of_char c :: nat) < 128 \<or> 192 \<le> (of_char c :: nat)) t1;
         t3 = collapse_spaces False t2;
         t4 = rev (dropWhile (\<lambda>c. c = CHR '','' \<or> c = CHR '';'' \<or> c = CHR '':'' \<or> py_isspace c) (rev t3))
     in py_strip t4)"

text \<open>Building a \<^verbatim>\<open>SynthesizedEvent\<close> runs its validators, also on the fallback.\<close>

definition SynthesizedEvent :: "string \<Rightarrow> string \<Rightarrow> string \<Rightarrow> int \<Rightarrow> synthesized_event" where
  "SynthesizedEvent title summary fallout_prediction severity =
    \<lparr>se_title = clean_text title, se_summary = clean_text summary,
     se_fallout_prediction = clean_text fallout_prediction, se_severity = clamp_severity severity\<rparr>"

subsection \<open>Incident grouping\<close>

text \<open>\<^verbatim>\<open>IncidentGroup.add_source\<close>: \<open>n\<close> is the number of sources after the append.\<close>

definition add_source ::
  "float_ops \<Rightarrow> incident_group \<Rightarrow> event_source \<Rightarrow> int \<Rightarrow> real \<Rightarrow> real \<Rightarrow> incident_group" where
  "add_source fp g source severity lng lat =
    (let sources = ig_sources g @ [source];
         n = length sources
     in g\<lparr>ig_sources := sources,
           ig_severities := ig_severities g @ [severity],
           ig_lng := fdiv fp (fadd fp (fmul fp (ig_lng g) (real (n - 1))) lng) (real n),
           ig_lat := fdiv fp (fadd fp (fmul fp (ig_lat g) (real (n - 1))) lat) (real n)\<rparr>)"

text \<open>The loop over the sources in \<^verbatim>\<open>IncidentGroup.matches\<close>: a source whose timestamp
  does not parse is passed over.\<close>

definition within_window :: "parser \<Rightarrow> datetime \<Rightarrow> event_source \<Rightarrow> bool" where
  "within_window fromisoformat article_dt source =
    (case parse_timestamp fromisoformat (es_timestamp source) of
       None \<Rightarrow> False
     | Some source_dt \<Rightarrow> abs_diff_us article_dt source_dt \<le> hours_us GROUPING_TIME_HOURS)"

definition matches ::
  "float_ops \<Rightarrow> parser \<Rightarrow> incident_group \<Rightarrow> string \<Rightarrow> real \<Rightarrow> real \<Rightarrow> string \<Rightarrow> bool" where
  "matches fp fromisoformat g category lng lat timestamp =
    (if ig_sources g = [] then False
     else if ig_category g \<noteq> category then False
     else if fsqrt fp (fadd fp (fsquare fp (fsub fp (ig_lng g) lng)) (fsquare fp (fsub fp (ig_lat g) lat)))
               > get_grouping_distance (ig_category g) then False
     else (case parse_timestamp fromisoformat timestamp of
             None \<Rightarrow> False
           | Some article_dt \<Rightarrow> list_ex (within_window fromisoformat article_dt) (ig_sources g)))"

definition get_max_severity :: "incident_group \<Rightarrow> int" where
  "get_max_severity g = (if ig_severities g \<noteq> [] then Max (set (ig_severities g)) else 5)"

text \<open>The search \<^verbatim>\<open>for group in groups: if group.matches(...): ... break\<close> followed by
  \<^verbatim>\<open>matched_group.add_source(...)\<close>, which changes the group where it stands in the list.
  \<open>None\<close> when no group matches.\<close>

fun add_to_first_match ::
  "float_ops \<Rightarrow> parser \<Rightarrow> event_source \<Rightarrow> enriched_article \<Rightarrow> string \<Rightarrow> incident_group list
     \<Rightarrow> incident_group list option" where
  "add_to_first_match fp fromisoformat source enriched timestamp [] = None"
| "add_to_first_match fp fromisoformat source enriched timestamp (g # gs) =
    (if matches fp fromisoformat g (ea_category enriched) (ea_longitude enriched) (ea_latitude enriched) timestamp
     then Some (add_source fp g source (ea_severity enriched) (ea_longitude enriched) (ea_latitude enriched) # gs)
     else map_option (\<lambda>gs'. g # gs') (add_to_first_match fp fromisoformat source enriched timestamp gs))"

text \<open>One turn of the loop of \<^verbatim>\<open>group_by_incident\<close>. \<open>now\<close> is what
  \<^verbatim>\<open>datetime.now(timezone.utc).isoformat()\<close> returns in this turn; it is the timestamp of an
  article without \<^verbatim>\<open>publishedAt\<close>.\<close>

definition group_step ::
  "float_ops \<Rightarrow> parser \<Rightarrow> string \<Rightarrow> incident_group list \<Rightarrow> article \<times> enriched_article
     \<Rightarrow> incident_group list" where
  "group_step fp fromisoformat now groups ae =
    (let article = fst ae; enriched = snd ae;
         source_name = a_source_name article;
         source_url = get_default (a_url article) '''';
         title = get_default (a_title article) ''No title'';
         timestamp = get_default (a_publishedAt article) now;
         credibility = get_source_credibility source_name in
     if credibility < 0 then groups
     else
      (let source = \<lparr>es_id = generate_source_id title (Some source_url),
                      es_headline = title,
                      es_summary = ea_summary enriched,
                      es_source_name = (case source_name of None \<Rightarrow> ''Unknown''
                                        | Some n \<Rightarrow> if n = [] then ''Unknown'' else n),
                      es_source_url = source_url,
                      es_timestamp = timestamp\<rparr> in
       case add_to_first_match fp fromisoformat source enriched timestamp groups of
         Some groups' \<Rightarrow> groups'
       | None \<Rightarrow>
           groups @ [add_source fp
                       \<lparr>ig_category = ea_category enriched, ig_lng = ea_longitude enriched,
                        ig_lat = ea_latitude enriched, ig_location_name = ea_location_name enriched,
                        ig_sources = [], ig_severities = []\<rparr>
                       source (ea_severity enriched) (ea_longitude enriched) (ea_latitude enriched)]))"

text \<open>\<^verbatim>\<open>group_by_incident\<close>. The clock is read once in every turn of the loop, so each
  article comes with the reading of its turn: an element of the input is the pair of the
  article and its classification, and that reading.\<close>

definition group_by_incident ::
  "float_ops \<Rightarrow> parser \<Rightarrow> ((article \<times> enriched_article) \<times> string) list \<Rightarrow> incident_group list" where
  "group_by_incident fp fromisoformat enriched_articles =
    foldl (\<lambda>groups timed. group_step fp fromisoformat (snd timed) groups (fst timed)) [] enriched_articles"

subsection \<open>Synthesis\<close>

text \<open>
  The call to the language model with its 60 second budget, the empty-response check and
  \<^verbatim>\<open>model_validate_json\<close> are outside the program. Their outcome is a parameter: a function
  of the sorted sources (from which the prompt is built) to \<open>Timeout\<close>
  (\<^verbatim>\<open>asyncio.TimeoutError\<close>), \<open>Failure\<close> (any other exception) or the four fields of the
  JSON answer.
\<close>

datatype llm_response = Timeout | Failure | Response string string string int

type_synonym llm = "event_source list \<Rightarrow> llm_response"

definition source_sort_key :: "event_source \<Rightarrow> int \<times> string" where
  "source_sort_key s = (- get_source_credibility (Some (es_source_name s)), es_timestamp s)"

text \<open>\<^verbatim>\<open>synthesize_incident\<close>. \<^verbatim>\<open>sorted\<close> is stable, as \<^const>\<open>sort_key\<close> is. The function
  is declared to return \<^verbatim>\<open>SynthesizedEvent | None\<close>; \<^verbatim>\<open>sorted_sources[0]\<close> in a handler
  raises \<^verbatim>\<open>IndexError\<close> on an empty list.\<close>

definition synthesize_incident :: "llm \<Rightarrow> event_source list \<Rightarrow> error + synthesized_event option" where
  "synthesize_incident generate_content sources =
    (let sorted_sources = sort_key source_sort_key sources in
     case generate_content sorted_sources of
       Response title summary fallout_prediction severity \<Rightarrow>
         Inr (Some (SynthesizedEvent title summary fallout_prediction severity))
     | Timeout \<Rightarrow>
         (case sorted_sources of
            [] \<Rightarrow> Inl IndexError
          | src # _ \<Rightarrow> Inr (Some (SynthesizedEvent (es_headline src) (es_summary src) '''' 5)))
     | Failure \<Rightarrow>
         (case sorted_sources of
            [] \<Rightarrow> Inl IndexError
          | src # _ \<Rightarrow> Inr (Some (SynthesizedEvent (es_headline src) (es_summary src) '''' 5))))"

text \<open>The part of \<^verbatim>\<open>process_articles\<close> that turns a group and its synthesis result into
  the title, summary, severity and fallout of the event (the \<^verbatim>\<open>if synthesized: ... else:\<close>
  of the final loop). A \<^verbatim>\<open>SynthesizedEvent\<close> object is always true.\<close>

definition event_content ::
  "incident_group \<Rightarrow> synthesized_event option \<Rightarrow> error + string \<times> string \<times> int \<times> string" where
  "event_content g synthesized =
    (case synthesized of
       Some s \<Rightarrow> Inr (se_title s, se_summary s, se_severity s, se_fallout_prediction s)
     | None \<Rightarrow>
         (case ig_sources g of
            [] \<Rightarrow> Inl IndexError
          | src # _ \<Rightarrow> Inr (es_headline src, es_summary src, get_max_severity g, '''')))"

text \<open>Synthesis of one group as \<^verbatim>\<open>process_articles\<close> runs it.\<close>

definition synthesize_group ::
  "llm \<Rightarrow> incident_group \<Rightarrow> error + string \<times> string \<times> int \<times> string" where
  "synthesize_group generate_content g =
    (case synthesize_incident generate_content (ig_sources g) of
       Inl e \<Rightarrow> Inl e
     | Inr synthesized \<Rightarrow> event_content g synthesized)"

subsection \<open>Retention and merging\<close>

definition retention_score :: "parser \<Rightarrow> event \<Rightarrow> error + int" where
  "retention_score fromisoformat event =
    (let timestamp = get_default (ev_last_updated event) (ev_timestamp event) in
     case parse_timestamp fromisoformat timestamp of
       None \<Rightarrow> Inl ValueError
     | Some dt \<Rightarrow>
         (let bonus_hours = get_default (map_of SEVERITY_BONUS_HOURS (ev_severity event)) 0 in
          if (wall_us dt + hours_us bonus_hours) div (86400 * 1000000) > 3652059
          then Inl OverflowError
          else Inr (utc_us dt + hours_us bonus_hours)))"

text \<open>\<^verbatim>\<open>_find_similar_existing_event\<close> with its defaults (distance 1.0, 24 hours). The
  dictionary \<^verbatim>\<open>existing_by_id\<close> is a list of pairs in insertion order; the result is the
  entry found.\<close>

definition similar_event :: "parser \<Rightarrow> event \<Rightarrow> datetime \<Rightarrow> event \<Rightarrow> bool" where
  "similar_event fromisoformat new_event new_dt existing =
    (if ev_category existing \<noteq> ev_category new_event then False
     else if sqrt ((fst (ev_coordinates new_event) - fst (ev_coordinates existing))\<^sup>2
                 + (snd (ev_coordinates new_event) - snd (ev_coordinates existing))\<^sup>2) > 1.0 then False
     else (case parse_timestamp fromisoformat (ev_timestamp existing) of
             None \<Rightarrow> False
           | Some ex_dt \<Rightarrow> \<not> abs_diff_us new_dt ex_dt > hours_us 24))"

definition find_similar_existing_event ::
  "parser \<Rightarrow> event \<Rightarrow> (string \<times> event) list \<Rightarrow> (string \<times> event) option" where
  "find_similar_existing_event fromisoformat new_event existing_events =
    (case parse_timestamp fromisoformat (ev_timestamp new_event) of
       None \<Rightarrow> None
     | Some new_dt \<Rightarrow> find (\<lambda>entry. similar_event fromisoformat new_event new_dt (snd entry)) existing_events)"

text \<open>The loops \<^verbatim>\<open>for source in event_dict["sources"]: if source["id"] not in
  seen_source_ids: ...append(source); seen_source_ids.add(source["id"])\<close>: the sources that
  pass, and the set afterwards.\<close>

fun take_unseen :: "string set \<Rightarrow> event_source list \<Rightarrow> event_source list \<times> string set" where
  "take_unseen seen [] = ([], seen)"
| "take_unseen seen (s # ss) =
    (if es_id s \<notin> seen
     then (case take_unseen (insert (es_id s) seen) ss of (new, seen') \<Rightarrow> (s # new, seen'))
     else take_unseen seen ss)"

record merge_state =
  existing_by_id :: "(string \<times> event) list"
  seen_source_ids :: "string set"
  merged_count :: nat
  new_count :: nat
  events_needing_synthesis :: "string list"

text \<open>The branch \<^verbatim>\<open>if new_sources:\<close> on the matched event.\<close>

definition merge_into :: "event \<Rightarrow> event_source list \<Rightarrow> event \<Rightarrow> event \<times> bool" where
  "merge_into existing new_sources event_dict =
    (let existing_sources = ev_sources existing;
         old_source_count = int (length existing_sources);
         extended = existing_sources @ new_sources;
         new_source_count = int (length extended);
         existing1 = existing
           \<lparr>ev_sources := sort_key es_timestamp extended,
            ev_last_updated :=
              Some (max (get_default (ev_last_updated existing) (ev_timestamp existing))
                        (get_default (ev_last_updated event_dict) (ev_timestamp event_dict))),
            ev_severity := max (ev_severity existing) (ev_severity event_dict)\<rparr>;
         last_synth_count = get_default (ev_last_synthesis_count existing1) old_source_count;
         sources_since_synthesis = new_source_count - last_synth_count
     in if sources_since_synthesis \<ge> 2
        then (existing1\<lparr>ev_last_synthesis_count := Some new_source_count\<rparr>, True)
        else (existing1, False))"

text \<open>One turn of the main loop of \<^verbatim>\<open>merge_with_existing\<close>. The events in
  \<^verbatim>\<open>events_needing_synthesis\<close> are the dictionaries held in \<^verbatim>\<open>existing_by_id\<close>; the
  model lists their keys.\<close>

definition merge_step :: "parser \<Rightarrow> merge_state \<Rightarrow> geo_event \<Rightarrow> merge_state" where
  "merge_step fromisoformat st event =
    (let event_dict = model_dump event;
         existing =
           (case map_of (existing_by_id st) (ge_id event) of
              Some e \<Rightarrow> Some (ge_id event, e)
            | None \<Rightarrow> find_similar_existing_event fromisoformat event_dict (existing_by_id st)) in
     case existing of
       Some (key, existing) \<Rightarrow>
         (case take_unseen (seen_source_ids st) (ev_sources event_dict) of
            (new_sources, seen) \<Rightarrow>
              if new_sources \<noteq> [] then
                (case merge_into existing new_sources event_dict of
                   (existing', needs_synthesis) \<Rightarrow>
                     st\<lparr>existing_by_id := AList.update key existing' (existing_by_id st),
                        seen_source_ids := seen,
                        merged_count := merged_count st + 1,
                        events_needing_synthesis :=
                          events_needing_synthesis st @ (if needs_synthesis then [key] else [])\<rparr>)
              else st\<lparr>seen_source_ids := seen\<rparr>)
     | None \<Rightarrow>
         (case take_unseen (seen_source_ids st) (ev_sources event_dict) of
            (unique_sources, seen) \<Rightarrow>
              if unique_sources \<noteq> [] then
                st\<lparr>existing_by_id :=
                     AList.update (ge_id event) (event_dict\<lparr>ev_sources := unique_sources\<rparr>) (existing_by_id st),
                   seen_source_ids := seen,
                   new_count := new_count st + 1\<rparr>
              else st\<lparr>seen_source_ids := seen\<rparr>))"

definition merge_init :: "event list \<Rightarrow> merge_state" where
  "merge_init existing_data =
    \<lparr>existing_by_id = foldl (\<lambda>d e. AList.update (ev_id e) e d) [] existing_data,
     seen_source_ids = set (concat (map (\<lambda>e. map es_id (ev_sources e)) existing_data)),
     merged_count = 0, new_count = 0, events_needing_synthesis = []\<rparr>"

text \<open>The update of a queued event with its synthesis result.\<close>

definition apply_synthesis :: "event \<Rightarrow> synthesized_event option \<Rightarrow> event" where
  "apply_synthesis event synthesized =
    (case synthesized of
       None \<Rightarrow> event
     | Some s \<Rightarrow>
         (let e1 = event\<lparr>ev_title := se_title s, ev_summary := se_summary s\<rparr>;
              e2 = (if se_fallout_prediction s \<noteq> [] then e1\<lparr>ev_fallout_prediction := se_fallout_prediction s\<rparr> else e1)
          in if se_severity s > ev_severity e2 then e2\<lparr>ev_severity := se_severity s\<rparr> else e2))"

text \<open>\<^verbatim>\<open>asyncio.gather\<close>: all results, or the first exception.\<close>

fun gather :: "(error + 'a) list \<Rightarrow> error + 'a list" where
  "gather [] = Inr []"
| "gather (Inl e # rs) = Inl e"
| "gather (Inr x # rs) = (case gather rs of Inl e \<Rightarrow> Inl e | Inr xs \<Rightarrow> Inr (x # xs))"

text \<open>The re-synthesis pass. \<open>client\<close> is \<open>None\<close> when no client is passed; otherwise it
  gives the language model's outcome for the \<open>i\<close>-th task of the batch. The tasks are all
  built before any result is applied.\<close>

definition lookup_event :: "(string \<times> event) list \<Rightarrow> string \<Rightarrow> event" where
  "lookup_event d key = the (map_of d key)"

definition resynthesize ::
  "(nat \<Rightarrow> llm) option \<Rightarrow> string list \<Rightarrow> (string \<times> event) list \<Rightarrow> error + (string \<times> event) list" where
  "resynthesize client needing d =
    (case client of
       None \<Rightarrow> Inr d
     | Some generate \<Rightarrow>
         if needing = [] then Inr d
         else (case gather (map (\<lambda>(i, key). synthesize_incident (generate i) (ev_sources (lookup_event d key)))
                              (enumerate 0 needing)) of
                 Inl e \<Rightarrow> Inl e
               | Inr synthesis_results \<Rightarrow>
                   Inr (foldl (\<lambda>d (key, synthesized). AList.update key (apply_synthesis (lookup_event d key) synthesized) d)
                          d (zip needing synthesis_results))))"

text \<open>\<^verbatim>\<open>sorted(values, key=retention_score, reverse=True)[:MAX_EVENTS]\<close>. The keys are
  computed first, and a key that raises ends the call. A reversed sort keeps the input order
  of equal keys.\<close>

definition sorted_by_retention :: "parser \<Rightarrow> event list \<Rightarrow> error + event list" where
  "sorted_by_retention fromisoformat events =
    (case gather (map (retention_score fromisoformat) events) of
       Inl e \<Rightarrow> Inl e
     | Inr keys \<Rightarrow> Inr (map snd (rev (sort_key fst (rev (zip keys events))))))"

text \<open>\<^verbatim>\<open>existing_by_id.values()\<close> when the re-synthesis pass is over: the events that
  compete for retention.\<close>

definition merged_events ::
  "parser \<Rightarrow> (nat \<Rightarrow> llm) option \<Rightarrow> geo_event list \<Rightarrow> event list \<Rightarrow> error + event list" where
  "merged_events fromisoformat gemini_client new_events existing_data =
    (let st = foldl (merge_step fromisoformat) (merge_init existing_data) new_events in
     case resynthesize gemini_client (events_needing_synthesis st) (existing_by_id st) of
       Inl e \<Rightarrow> Inl e
     | Inr d \<Rightarrow> Inr (map snd d))"

definition merge_with_existing ::
  "parser \<Rightarrow> (nat \<Rightarrow> llm) option \<Rightarrow> geo_event list \<Rightarrow> event list \<Rightarrow> error + event list" where
  "merge_with_existing fromisoformat gemini_client new_events existing_data =
    (case merged_events fromisoformat gemini_client new_events existing_data of
       Inl e \<Rightarrow> Inl e
     | Inr events \<Rightarrow>
         (case sorted_by_retention fromisoformat events of
            Inl e \<Rightarrow> Inl e
          | Inr all_events \<Rightarrow> Inr (take MAX_EVENTS all_events)))"

text \<open>The ids of all sources of a list of events, with repetitions.\<close>

definition source_ids :: "event list \<Rightarrow> string list" where
  "source_ids events = concat (map (\<lambda>e. map es_id (ev_sources e)) events)"

text \<open>What the main loop keeps true of its state: the keys of the dictionary are distinct,
  every event is stored under its own id, every source id in the dictionary has been seen,
  and every queued key is in the dictionary with at least one source.\<close>

definition merge_inv :: "merge_state \<Rightarrow> bool" where
  "merge_inv st =
    (distinct (map fst (existing_by_id st))
     \<and> list_all (\<lambda>entry. ev_id (snd entry) = fst entry) (existing_by_id st)
     \<and> set (source_ids (map snd (existing_by_id st))) \<subseteq> seen_source_ids st
     \<and> list_all (\<lambda>key. case map_of (existing_by_id st) key of None \<Rightarrow> False | Some e \<Rightarrow> ev_sources e \<noteq> [])
           (events_needing_synthesis st))"

text \<open>The timestamp an event is ranked by: \<^verbatim>\<open>event.get("last_updated", event["timestamp"])\<close>.\<close>

definition effective_last_updated :: "event \<Rightarrow> string" where
  "effective_last_updated e = get_default (ev_last_updated e) (ev_timestamp e)"

text \<open>\<open>e'\<close> is a later state of the event \<open>e\<close>: same id and timestamp, severity and
  \<^verbatim>\<open>last_updated\<close> not smaller.\<close>

definition grown :: "event \<Rightarrow> event \<Rightarrow> bool" where
  "grown e e' =
    (ev_id e' = ev_id e \<and> ev_timestamp e' = ev_timestamp e \<and> ev_severity e \<le> ev_severity e'
     \<and> effective_last_updated e \<le> effective_last_updated e'
     \<and> (case ev_last_updated e of None \<Rightarrow> True
         | Some lu \<Rightarrow> (case ev_last_updated e' of None \<Rightarrow> False | Some lu' \<Rightarrow> lu \<le> lu')))"

text \<open>The retention score where \<^verbatim>\<open>retention_score\<close> returns, and the bonus in the words of
  the specification.\<close>

definition score_of :: "parser \<Rightarrow> event \<Rightarrow> int" where
  "score_of fromisoformat e = (case retention_score fromisoformat e of Inl _ \<Rightarrow> 0 | Inr s \<Rightarrow> s)"

definition bonus_hours :: "int \<Rightarrow> int" where
  "bonus_hours severity =
    (if severity = 10 then 168 else if severity = 9 then 120 else if severity = 8 then 72
     else if severity = 7 then 48 else 0)"

text \<open>Every source of the group has a credibility of at least 0.\<close>

definition credible_sources :: "incident_group \<Rightarrow> bool" where
  "credible_sources g = list_all (\<lambda>s. 0 \<le> get_source_credibility (Some (es_source_name s))) (ig_sources g)"

text \<open>The grouping rule in the words of the specification: the radius of a category (the
  binary64 values of 0.1, 0.3 and 0.5); the Euclidean distance between two points, as binary64
  computes it; when an article belongs to a group; the source an article becomes; the
  running mean \<open>(old * (n - 1) + new) / n\<close>, as binary64 computes it; what attaching does to
  a group (\<open>n\<close> is the number of sources after the attach); the group a lone article founds,
  which is a group at the article's place with no source yet, to which the article is
  attached.\<close>

definition category_radius :: "string \<Rightarrow> real" where
  "category_radius c =
    (if c = ''MILITARY'' then 3602879701896397 / 36028797018963968
     else if c = ''UNREST'' then 5404319552844595 / 18014398509481984
     else if c = ''DIPLOMACY'' then 1 / 2 else if c = ''ECONOMY'' then 1 / 2 else 1 / 2)"

definition euclidean_distance :: "float_ops \<Rightarrow> real \<times> real \<Rightarrow> real \<times> real \<Rightarrow> real" where
  "euclidean_distance fp a b =
    fsqrt fp (fadd fp (fsquare fp (fsub fp (fst a) (fst b))) (fsquare fp (fsub fp (snd a) (snd b))))"

definition same_incident ::
  "float_ops \<Rightarrow> parser \<Rightarrow> incident_group \<Rightarrow> enriched_article \<Rightarrow> string \<Rightarrow> bool" where
  "same_incident fp fromisoformat g enriched timestamp =
    (ig_category g = ea_category enriched
     \<and> euclidean_distance fp (ig_lng g, ig_lat g) (ea_longitude enriched, ea_latitude enriched)
         \<le> category_radius (ea_category enriched)
     \<and> (\<exists>s \<in> set (ig_sources g). \<exists>article_dt source_dt.
           parse_timestamp fromisoformat timestamp = Some article_dt
         \<and> parse_timestamp fromisoformat (es_timestamp s) = Some source_dt
         \<and> abs_diff_us article_dt source_dt \<le> hours_us 12))"

definition article_source :: "string \<Rightarrow> article \<Rightarrow> enriched_article \<Rightarrow> event_source" where
  "article_source now article enriched =
    \<lparr>es_id = generate_source_id (get_default (a_title article) ''No title'') (Some (get_default (a_url article) '''')),
     es_headline = get_default (a_title article) ''No title'',
     es_summary = ea_summary enriched,
     es_source_name = (case a_source_name article of None \<Rightarrow> ''Unknown''
                       | Some n \<Rightarrow> if n = [] then ''Unknown'' else n),
     es_source_url = get_default (a_url article) '''',
     es_timestamp = get_default (a_publishedAt article) now\<rparr>"

definition running_mean :: "float_ops \<Rightarrow> real \<Rightarrow> nat \<Rightarrow> real \<Rightarrow> real" where
  "running_mean fp old_centroid n new_point =
    fdiv fp (fadd fp (fmul fp old_centroid (real (n - 1))) new_point) (real n)"

definition attach :: "float_ops \<Rightarrow> incident_group \<Rightarrow> event_source \<Rightarrow> enriched_article \<Rightarrow> incident_group" where
  "attach fp g s enriched =
    g\<lparr>ig_sources := ig_sources g @ [s],
      ig_severities := ig_severities g @ [ea_severity enriched],
      ig_lng := running_mean fp (ig_lng g) (length (ig_sources g) + 1) (ea_longitude enriched),
      ig_lat := running_mean fp (ig_lat g) (length (ig_sources g) + 1) (ea_latitude enriched)\<rparr>"

definition new_group :: "float_ops \<Rightarrow> event_source \<Rightarrow> enriched_article \<Rightarrow> incident_group" where
  "new_group fp s enriched =
    attach fp
      \<lparr>ig_category = ea_category enriched, ig_lng = ea_longitude enriched, ig_lat = ea_latitude enriched,
       ig_location_name = ea_location_name enriched, ig_sources = [], ig_severities = []\<rparr>
      s enriched"

text \<open>Sample data: what the runtime's parser returns on two timestamps, and three articles
  on Kyiv with their classification.\<close>

definition now_sample :: string where
  "now_sample = ''2026-01-22T00:00:00+00:00''"

definition fromisoformat_sample :: parser where
  "fromisoformat_sample s =
    map_of
      [(''2026-01-21T10:00:00+00:00'',
          \<lparr>year = 2026, month = 1, day = 21, hour = 10, minute = 0, second = 0, microsecond = 0, utcoffset = 0\<rparr>),
       (''2026-01-21T13:00:00+00:00'',
          \<lparr>year = 2026, month = 1, day = 21, hour = 13, minute = 0, second = 0, microsecond = 0, utcoffset = 0\<rparr>)] s"

definition kyiv_1 :: article where
  "kyiv_1 = \<lparr>a_title = Some ''Strike on Kyiv'', a_description = None, a_url = Some ''https://a.com/1'',
             a_source_name = Some ''Reuters'', a_publishedAt = Some ''2026-01-21T10:00:00Z''\<rparr>"

definition kyiv_2 :: article where
  "kyiv_2 = \<lparr>a_title = Some ''Kyiv hit again'', a_description = None, a_url = Some ''https://b.com/2'',
             a_source_name = Some ''Reuters'', a_publishedAt = Some ''2026-01-21T13:00:00Z''\<rparr>"

definition kyiv_rt :: article where
  "kyiv_rt = \<lparr>a_title = Some ''Kyiv report'', a_description = None, a_url = Some ''https://c.com/3'',
             a_source_name = Some ''RT'', a_publishedAt = Some ''2026-01-21T10:00:00Z''\<rparr>"

definition enriched_1 :: enriched_article where
  "enriched_1 = \<lparr>ea_location_name = ''Kyiv, Ukraine'', ea_category = ''MILITARY'', ea_severity = 7,
                 ea_summary = ''A strike hit Kyiv.'', ea_is_geopolitical = True,
                 ea_latitude = 50.5, ea_longitude = 30.5\<rparr>"

definition enriched_2 :: enriched_article where
  "enriched_2 = \<lparr>ea_location_name = ''Kyiv, Ukraine'', ea_category = ''MILITARY'', ea_severity = 8,
                 ea_summary = ''Kyiv was hit again.'', ea_is_geopolitical = True,
                 ea_latitude = 50.5, ea_longitude = 30.5625\<rparr>"

text \<open>Sample data: a group with one source of severity 8 whose headline ends in a colon.\<close>

definition talks_source :: event_source where
  "talks_source = \<lparr>es_id = ''0f3c2a9d5b7e4c61'', es_headline = ''Talks collapse:'',
                   es_summary = ''Talks collapsed.'', es_source_name = ''Reuters'',
                   es_source_url = ''https://a.com/1'', es_timestamp = ''2026-01-21T10:00:00Z''\<rparr>"

definition talks_group :: incident_group where
  "talks_group = \<lparr>ig_category = ''DIPLOMACY'', ig_lng = 6.14, ig_lat = 46.2,
                  ig_location_name = ''Geneva, Switzerland'', ig_sources = [talks_source],
                  ig_severities = [8]\<rparr>"

text \<open>\<open>d'\<close> has the entries of \<open>d\<close> in the same order, each event grown and with the same
  sources.\<close>

definition entries_grown :: "(string \<times> event) list \<Rightarrow> (string \<times> event) list \<Rightarrow> bool" where
  "entries_grown d d' =
    list_all2 (\<lambda>p p'. fst p' = fst p \<and> grown (snd p) (snd p') \<and> ev_sources (snd p') = ev_sources (snd p)) d d'"

text \<open>Sample data: a persisted set of two events and an incoming incident with the id of the
  first, carrying one source that is already persisted and one new source.\<close>

definition source_a :: event_source where
  "source_a = \<lparr>es_id = ''aaaaaaaaaaaaaaaa'', es_headline = ''Strike on Kyiv'',
                es_summary = ''A strike hit Kyiv.'', es_source_name = ''Reuters'',
                es_source_url = ''https://a.com/1'', es_timestamp = ''2026-01-21T10:00:00Z''\<rparr>"

definition source_b :: event_source where
  "source_b = \<lparr>es_id = ''bbbbbbbbbbbbbbbb'', es_headline = ''Kyiv hit again'',
                es_summary = ''Kyiv was hit again.'', es_source_name = ''BBC News'',
                es_source_url = ''https://b.com/2'', es_timestamp = ''2026-01-21T13:00:00Z''\<rparr>"

definition source_c :: event_source where
  "source_c = \<lparr>es_id = ''cccccccccccccccc'', es_headline = ''Talks in Geneva'',
                es_summary = ''Talks opened in Geneva.'', es_source_name = ''AFP'',
                es_source_url = ''https://c.com/3'', es_timestamp = ''2026-01-21T10:00:00Z''\<rparr>"

definition persisted_kyiv :: event where
  "persisted_kyiv =
    \<lparr>ev_id = ''1111111111111111'', ev_title = ''Strike on Kyiv'', ev_category = ''MILITARY'',
     ev_coordinates = (30.52, 50.45), ev_location_name = ''Kyiv, Ukraine'', ev_region = ''EUROPE'',
     ev_severity = 7, ev_summary = ''A strike hit Kyiv.'', ev_timestamp = ''2026-01-21T10:00:00Z'',
     ev_last_updated = Some ''2026-01-21T10:00:00Z'', ev_fallout_prediction = ''Escalation.'',
     ev_sources = [source_a], ev_last_synthesis_count = None\<rparr>"

definition persisted_geneva :: event where
  "persisted_geneva =
    \<lparr>ev_id = ''2222222222222222'', ev_title = ''Talks in Geneva'', ev_category = ''DIPLOMACY'',
     ev_coordinates = (6.14, 46.2), ev_location_name = ''Geneva, Switzerland'', ev_region = ''EUROPE'',
     ev_severity = 10, ev_summary = ''Talks opened in Geneva.'', ev_timestamp = ''2026-01-21T10:00:00Z'',
     ev_last_updated = None, ev_fallout_prediction = ''A deal.'',
     ev_sources = [source_c], ev_last_synthesis_count = None\<rparr>"

definition incoming_kyiv :: geo_event where
  "incoming_kyiv =
    \<lparr>ge_id = ''1111111111111111'', ge_title = ''Kyiv hit again'', ge_category = ''MILITARY'',
     ge_coordinates = (30.525, 50.455), ge_location_name = ''Kyiv, Ukraine'', ge_region = ''EUROPE'',
     ge_severity = 5, ge_summary = ''Kyiv was hit again.'', ge_timestamp = ''2026-01-21T10:00:00Z'',
     ge_last_updated = ''2026-01-21T13:00:00Z'', ge_fallout_prediction = ''More strikes.'',
     ge_sources = [source_a, source_b]\<rparr>"

definition merged_kyiv :: event where
  "merged_kyiv =
    persisted_kyiv\<lparr>ev_sources := [source_a, source_b], ev_last_updated := Some ''2026-01-21T13:00:00Z''\<rparr>"

text \<open>Sample data: what the runtime's parser returns on a timestamp with and without
  microseconds; two sources of the same outlet half a second apart, the later one stamped
  with microseconds; a persisted event last updated at the later instant and an incoming
  incident, of the same id, that brings the earlier source.\<close>

definition fromisoformat_mixed :: parser where
  "fromisoformat_mixed s =
    map_of
      [(''2026-01-21T10:00:00+00:00'',
          \<lparr>year = 2026, month = 1, day = 21, hour = 10, minute = 0, second = 0, microsecond = 0, utcoffset = 0\<rparr>),
       (''2026-01-21T10:00:00.500000+00:00'',
          \<lparr>year = 2026, month = 1, day = 21, hour = 10, minute = 0, second = 0, microsecond = 500000, utcoffset = 0\<rparr>)] s"

definition early_source :: event_source where
  "early_source = \<lparr>es_id = ''dddddddddddddddd'', es_headline = ''Talks open'',
                   es_summary = ''Talks opened.'', es_source_name = ''Reuters'',
                   es_source_url = ''https://a.com/4'', es_timestamp = ''2026-01-21T10:00:00Z''\<rparr>"

definition late_source :: event_source where
  "late_source = \<lparr>es_id = ''eeeeeeeeeeeeeeee'', es_headline = ''Talks stall'',
                  es_summary = ''Talks stalled.'', es_source_name = ''Reuters'',
                  es_source_url = ''https://a.com/5'',
                  es_timestamp = ''2026-01-21T10:00:00.500000+00:00''\<rparr>"

definition persisted_late :: event where
  "persisted_late =
    \<lparr>ev_id = ''3333333333333333'', ev_title = ''Talks stall'', ev_category = ''DIPLOMACY'',
     ev_coordinates = (6.14, 46.2), ev_location_name = ''Geneva, Switzerland'', ev_region = ''EUROPE'',
     ev_severity = 6, ev_summary = ''Talks stalled.'',
     ev_timestamp = ''2026-01-21T10:00:00.500000+00:00'',
     ev_last_updated = Some ''2026-01-21T10:00:00.500000+00:00'', ev_fallout_prediction = ''Delay.'',
     ev_sources = [late_source], ev_last_synthesis_count = None\<rparr>"

definition incoming_early :: geo_event where
  "incoming_early =
    \<lparr>ge_id = ''3333333333333333'', ge_title = ''Talks open'', ge_category = ''DIPLOMACY'',
     ge_coordinates = (6.14, 46.2), ge_location_name = ''Geneva, Switzerland'', ge_region = ''EUROPE'',
     ge_severity = 5, ge_summary = ''Talks opened.'', ge_timestamp = ''2026-01-21T10:00:00Z'',
     ge_last_updated = ''2026-01-21T10:00:00Z'', ge_fallout_prediction = ''A deal.'',
     ge_sources = [early_source]\<rparr>"

section \<open>Properties of the deduplicator\<close>

lemma dedupe_step_state_of:
  "dedupe_step threshold (dedupe_state_of kept) a =
    (if list_ex (\<lambda>k. duplicates threshold k a) kept then dedupe_state_of kept
     else dedupe_state_of (kept @ [a]))"
  by (auto simp: dedupe_step_def dedupe_state_of_def duplicates_def article_url_def
      article_title_def Let_def list_ex_iff)

lemma foldl_dedupe_step:
  "foldl (dedupe_step threshold) (dedupe_state_of kept) xs =
    dedupe_state_of (kept @ kept_after threshold kept xs)"
proof (induction xs arbitrary: kept)
  case Nil
  show ?case by simp
next
  case (Cons x xs)
  show ?case
  proof (cases "list_ex (\<lambda>k. duplicates threshold k x) kept")
    case True
    then show ?thesis using Cons.IH [of kept] by (simp add: dedupe_step_state_of)
  next
    case False
    then show ?thesis using Cons.IH [of "kept @ [x]"] by (simp add: dedupe_step_state_of)
  qed
qed

lemma dedupe_articles_kept_after:
  "dedupe_articles xs threshold = kept_after threshold [] xs"
proof -
  have init: "dedupe_init = dedupe_state_of []"
    by (simp add: dedupe_init_def dedupe_state_of_def)
  show ?thesis
    unfolding dedupe_articles_def init foldl_dedupe_step
    by (simp add: dedupe_state_of_def)
qed

lemma kept_after_subseq: "subseq (kept_after threshold kept xs) xs"
  by (induction xs arbitrary: kept) auto

lemma kept_after_idem:
  "kept_after threshold kept (kept_after threshold kept xs) = kept_after threshold kept xs"
  by (induction xs arbitrary: kept) auto

lemma kept_after_snoc:
  "kept_after threshold kept (xs @ [x]) =
    kept_after threshold kept xs
      @ (if list_ex (\<lambda>k. duplicates threshold k x) (kept @ kept_after threshold kept xs) then [] else [x])"
  by (induction xs arbitrary: kept) auto

lemma title_hash_cong:
  "extract_keywords s = extract_keywords t \<Longrightarrow> title_hash s = title_hash t"
  by (simp add: title_hash_def)

lemma keywords_scenario:
  "extract_keywords ''Russia attack Ukraine border forces military''
     = extract_keywords ''Russian attack Ukrainian border forces military''"
  by code_simp

lemma similar_scenario:
  "titles_similar ''Russia attack Ukraine border forces military''
     ''Russian attack Ukrainian border forces military'' 0.5"
  by code_simp

text \<open>
  \<^bold>\<open>C8.\<close> The two titles of the scenario have the same keyword set, \<^verbatim>\<open>titles_similar\<close> holds
  for them at threshold 0.5, and \<^verbatim>\<open>dedupe_articles\<close> keeps only the first of two articles that
  carry them, whatever their URLs and other fields are and whatever the threshold is.
\<close>

theorem C8_scenario_same_keywords_first_kept:
  "extract_keywords ''Russia attack Ukraine border forces military''
     = extract_keywords ''Russian attack Ukrainian border forces military''
   \<and> titles_similar ''Russia attack Ukraine border forces military''
        ''Russian attack Ukrainian border forces military'' 0.5
   \<and> dedupe_articles
        [a\<lparr>a_title := Some ''Russia attack Ukraine border forces military''\<rparr>,
         b\<lparr>a_title := Some ''Russian attack Ukrainian border forces military''\<rparr>] threshold
      = [a\<lparr>a_title := Some ''Russia attack Ukraine border forces military''\<rparr>]"
proof -
  have "title_hash ''Russian attack Ukrainian border forces military''
      = title_hash ''Russia attack Ukraine border forces military''"
    by (rule title_hash_cong) (simp add: keywords_scenario)
  then have "dedupe_articles
        [a\<lparr>a_title := Some ''Russia attack Ukraine border forces military''\<rparr>,
         b\<lparr>a_title := Some ''Russian attack Ukrainian border forces military''\<rparr>] threshold
      = [a\<lparr>a_title := Some ''Russia attack Ukraine border forces military''\<rparr>]"
    by (simp add: dedupe_articles_kept_after duplicates_def article_title_def get_default_def)
  then show ?thesis
    using keywords_scenario similar_scenario by simp
qed

text \<open>
  \<^bold>\<open>C10.\<close> When the titles of two articles both give an empty keyword set, both titles have
  the title hash of the empty keyword string, and \<^verbatim>\<open>dedupe_articles\<close> on the two keeps the
  first and drops the second, whatever their URLs are.
\<close>

theorem C10_empty_keywords_collide:
  assumes "extract_keywords (get_default (a_title a) '''') = {}"
    and "extract_keywords (get_default (a_title b) '''') = {}"
  shows "title_hash (get_default (a_title a) '''') = take 16 (md5_hexdigest [])
       \<and> title_hash (get_default (a_title b) '''') = take 16 (md5_hexdigest [])
       \<and> dedupe_articles [a, b] threshold = [a]"
  using assms
  by (simp add: dedupe_articles_kept_after duplicates_def article_title_def title_hash_def encode_def)

lemma keywords_short_words: "extract_keywords ''US to UK by EU'' = {}"
  by code_simp

lemma keywords_stop_words: "extract_keywords ''The latest news'' = {}"
  by code_simp

theorem C10_witness:
  "dedupe_articles
     [\<lparr>a_title = Some ''US to UK by EU'', a_description = None, a_url = Some ''https://a.com/1'',
       a_source_name = Some ''Source A'', a_publishedAt = None\<rparr>,
      \<lparr>a_title = Some ''The latest news'', a_description = None, a_url = Some ''https://b.com/2'',
       a_source_name = Some ''Source B'', a_publishedAt = None\<rparr>] 0.6
   = [\<lparr>a_title = Some ''US to UK by EU'', a_description = None, a_url = Some ''https://a.com/1'',
       a_source_name = Some ''Source A'', a_publishedAt = None\<rparr>]"
  using C10_empty_keywords_collide
    [of "\<lparr>a_title = Some ''US to UK by EU'', a_description = None, a_url = Some ''https://a.com/1'',
          a_source_name = Some ''Source A'', a_publishedAt = None\<rparr>"
        "\<lparr>a_title = Some ''The latest news'', a_description = None, a_url = Some ''https://b.com/2'',
          a_source_name = Some ''Source B'', a_publishedAt = None\<rparr>" "0.6"]
  by (simp add: get_default_def keywords_short_words keywords_stop_words)

lemma title_hash_gaza: "title_hash ''Gaza strike'' = ''4f3fd7ec701f0c07''"
  by code_simp

lemma title_hash_china: "title_hash ''China economy'' = ''97beb0bb783e36af''"
  by code_simp

lemma keywords_gaza: "extract_keywords ''Gaza strike'' = {''palestine'', ''strike''}"
  by code_simp

lemma keywords_china: "extract_keywords ''China economy'' = {''china'', ''economy''}"
  by code_simp

lemma not_similar_china_gaza:
  "\<not> jaccard_ge (extract_keywords (article_title china_2)) (extract_keywords (article_title gaza_1)) 0.6"
proof -
  have "{''china'', ''economy''} \<inter> {''palestine'', ''strike''} = ({} :: string set)"
    by simp
  then show ?thesis
    by (simp add: jaccard_ge_def Let_def article_title_def get_default_def gaza_1_def china_2_def
        keywords_gaza keywords_china)
qed

text \<open>
  \<^bold>\<open>C7, as stated, fails.\<close> \<open>gaza_2\<close> and \<open>china_2\<close> are duplicates of each other (same URL),
  \<open>gaza_2\<close> comes first, and \<^verbatim>\<open>dedupe_articles\<close> keeps \<open>china_2\<close>, not \<open>gaza_2\<close>.
\<close>

theorem C7_first_occurrence_counterexample:
  "duplicates 0.6 gaza_2 china_2
   \<and> dedupe_articles [gaza_1, gaza_2, china_2] 0.6 = [gaza_1, china_2]"
proof -
  have "duplicates 0.6 gaza_2 china_2"
    by (simp add: duplicates_def article_url_def gaza_2_def china_2_def)
  moreover have "duplicates 0.6 gaza_1 gaza_2"
    by (simp add: duplicates_def article_title_def gaza_1_def gaza_2_def)
  moreover have "\<not> duplicates 0.6 gaza_1 china_2"
  proof -
    have "article_url china_2 \<noteq> article_url gaza_1"
      by (simp add: article_url_def get_default_def normalize_url_def gaza_1_def china_2_def)
    moreover have "title_hash (article_title china_2) \<noteq> title_hash (article_title gaza_1)"
      by (simp add: article_title_def get_default_def gaza_1_def china_2_def
          title_hash_gaza title_hash_china)
    ultimately show ?thesis
      unfolding duplicates_def using not_similar_china_gaza by blast
  qed
  ultimately show ?thesis
    by (simp add: dedupe_articles_kept_after)
qed

text \<open>
  \<^bold>\<open>C7, amended.\<close> \<^verbatim>\<open>dedupe_articles\<close> keeps a subsequence of its input (the kept articles
  stand in their input order); it is idempotent; and it reads its input from left to right,
  dropping an article exactly when it duplicates (same normalized URL, same title hash, or
  keyword similarity at the threshold) an article that was \<^emph>\<open>kept\<close> before it. An article that
  was dropped hides no later article.
\<close>

theorem C7_order_preserving_idempotent:
  "subseq (dedupe_articles xs threshold) xs
   \<and> dedupe_articles (dedupe_articles xs threshold) threshold = dedupe_articles xs threshold
   \<and> dedupe_articles (xs @ [x]) threshold =
       dedupe_articles xs threshold
         @ (if list_ex (\<lambda>k. duplicates threshold k x) (dedupe_articles xs threshold) then [] else [x])"
  by (simp add: dedupe_articles_kept_after kept_after_subseq kept_after_idem kept_after_snoc)

section \<open>Properties of the grouping engine\<close>

lemma credibility_unknown: "get_source_credibility (Some ''Unknown'') = 0"
  by code_simp

lemma credibility_rt: "get_source_credibility (Some ''RT'') = - 1"
  by code_simp

lemma credibility_reuters: "get_source_credibility (Some ''Reuters'') = 3"
  by code_simp

lemma group_step_filtered:
  "get_source_credibility (a_source_name (fst ae)) < 0 \<Longrightarrow>
   group_step fp fromisoformat now groups ae = groups"
  by (simp add: group_step_def Let_def)

lemma foldl_group_step_filter:
  "foldl (\<lambda>groups timed. group_step fp fromisoformat (snd timed) groups (fst timed)) groups xs =
    foldl (\<lambda>groups timed. group_step fp fromisoformat (snd timed) groups (fst timed)) groups
      (filter (\<lambda>timed. \<not> get_source_credibility (a_source_name (fst (fst timed))) < 0) xs)"
  by (induction xs arbitrary: groups) (simp_all add: group_step_filtered)

lemma add_source_sources [simp]:
  "ig_sources (add_source fp g s sev lng lat) = ig_sources g @ [s]"
  by (simp add: add_source_def Let_def)

lemma add_to_first_match_credible:
  assumes "add_to_first_match fp fromisoformat source enriched timestamp groups = Some groups'"
    and "list_all credible_sources groups"
    and "0 \<le> get_source_credibility (Some (es_source_name source))"
  shows "list_all credible_sources groups'"
  using assms
proof (induction groups arbitrary: groups')
  case Nil
  then show ?case by simp
next
  case (Cons g gs)
  then show ?case
    by (auto simp: credible_sources_def split: if_splits)
qed

lemma group_step_credible:
  assumes "list_all credible_sources groups"
  shows "list_all credible_sources (group_step fp fromisoformat now groups ae)"
proof (cases "get_source_credibility (a_source_name (fst ae)) < 0")
  case True
  then show ?thesis using assms by (simp add: group_step_filtered)
next
  case False
  define name where "name = (case a_source_name (fst ae) of None \<Rightarrow> ''Unknown''
                                        | Some n \<Rightarrow> if n = [] then ''Unknown'' else n)"
  have cred: "0 \<le> get_source_credibility (Some name)"
  proof (cases "a_source_name (fst ae)")
    case None
    then show ?thesis by (simp add: name_def credibility_unknown)
  next
    case (Some n)
    then show ?thesis using False by (cases "n = []") (simp_all add: name_def credibility_unknown)
  qed
  show ?thesis
    using False assms cred add_to_first_match_credible
    unfolding group_step_def Let_def name_def
    by (auto simp: credible_sources_def split: option.splits)
qed

lemma foldl_group_step_credible:
  "list_all credible_sources groups \<Longrightarrow>
   list_all credible_sources
     (foldl (\<lambda>groups timed. group_step fp fromisoformat (snd timed) groups (fst timed)) groups xs)"
  by (induction xs arbitrary: groups) (simp_all add: group_step_credible)

lemma get_grouping_distance_radius: "get_grouping_distance c = category_radius c"
  by (simp add: get_grouping_distance_def category_radius_def GROUPING_DISTANCE_DEGREES_def
      GROUPING_DISTANCE_DEFAULT_def get_default_def)

lemma matches_same_incident:
  "ig_sources g \<noteq> [] \<Longrightarrow>
   matches fp fromisoformat g (ea_category enriched) (ea_longitude enriched) (ea_latitude enriched) timestamp
     = same_incident fp fromisoformat g enriched timestamp"
  by (auto simp: matches_def same_incident_def euclidean_distance_def get_grouping_distance_radius
      within_window_def GROUPING_TIME_HOURS_def list_ex_iff split: option.splits)

lemma add_source_attach:
  "add_source fp g s (ea_severity enriched) (ea_longitude enriched) (ea_latitude enriched)
     = attach fp g s enriched"
  by (simp add: add_source_def attach_def running_mean_def Let_def)

lemma add_to_first_match_None:
  "list_all (\<lambda>g. ig_sources g \<noteq> []) groups \<Longrightarrow>
   (add_to_first_match fp fromisoformat s enriched timestamp groups = None)
     = (\<forall>g \<in> set groups. \<not> same_incident fp fromisoformat g enriched timestamp)"
  by (induction groups) (auto simp: matches_same_incident)

lemma add_to_first_match_first:
  assumes "list_all (\<lambda>g. ig_sources g \<noteq> []) groups"
    and "i < length groups"
    and "same_incident fp fromisoformat (groups ! i) enriched timestamp"
    and "\<forall>j < i. \<not> same_incident fp fromisoformat (groups ! j) enriched timestamp"
  shows "add_to_first_match fp fromisoformat s enriched timestamp groups
          = Some (groups[i := attach fp (groups ! i) s enriched])"
  using assms
proof (induction groups arbitrary: i)
  case Nil
  then show ?case by simp
next
  case (Cons g gs)
  show ?case
  proof (cases i)
    case 0
    then show ?thesis using Cons.prems by (simp add: matches_same_incident add_source_attach)
  next
    case (Suc k)
    have "\<not> same_incident fp fromisoformat g enriched timestamp"
      using Cons.prems(4) Suc by auto
    moreover have rest: "\<forall>j<k. \<not> same_incident fp fromisoformat (gs ! j) enriched timestamp"
    proof (intro allI impI)
      fix j
      assume "j < k"
      then have "Suc j < i" using Suc by simp
      then have "\<not> same_incident fp fromisoformat ((g # gs) ! Suc j) enriched timestamp"
        using Cons.prems(4) by blast
      then show "\<not> same_incident fp fromisoformat (gs ! j) enriched timestamp" by simp
    qed
    moreover have "add_to_first_match fp fromisoformat s enriched timestamp gs
          = Some (gs[k := attach fp (gs ! k) s enriched])"
      using Cons.IH [of k] Cons.prems(1,2,3) Suc rest by simp
    ultimately show ?thesis using Cons.prems(1) Suc by (simp add: matches_same_incident)
  qed
qed

lemma add_to_first_match_nonempty:
  "add_to_first_match fp fromisoformat s enriched timestamp groups = Some groups' \<Longrightarrow>
   list_all (\<lambda>g. ig_sources g \<noteq> []) groups \<Longrightarrow> list_all (\<lambda>g. ig_sources g \<noteq> []) groups'"
  by (induction groups arbitrary: groups') (auto simp: add_source_def Let_def split: if_splits)

lemma group_step_nonempty:
  "list_all (\<lambda>g. ig_sources g \<noteq> []) groups \<Longrightarrow>
   list_all (\<lambda>g. ig_sources g \<noteq> []) (group_step fp fromisoformat now groups ae)"
  unfolding group_step_def Let_def
  by (auto simp: add_source_def Let_def split: option.splits dest: add_to_first_match_nonempty)

lemma group_by_incident_nonempty:
  "list_all (\<lambda>g. ig_sources g \<noteq> []) (group_by_incident fp fromisoformat xs)"
proof -
  have "list_all (\<lambda>g. ig_sources g \<noteq> []) groups \<Longrightarrow>
        list_all (\<lambda>g. ig_sources g \<noteq> [])
          (foldl (\<lambda>groups timed. group_step fp fromisoformat (snd timed) groups (fst timed)) groups xs)"
    for groups
    by (induction xs arbitrary: groups) (simp_all add: group_step_nonempty)
  then show ?thesis by (simp add: group_by_incident_def)
qed

lemma group_by_incident_snoc:
  "group_by_incident fp fromisoformat (xs @ [(ae, now)]) =
     group_step fp fromisoformat now (group_by_incident fp fromisoformat xs) ae"
  by (simp add: group_by_incident_def)

lemma group_step_spec:
  assumes ne: "list_all (\<lambda>g. ig_sources g \<noteq> []) groups"
  shows "(get_source_credibility (a_source_name article) < 0 \<longrightarrow>
            group_step fp fromisoformat now groups (article, enriched) = groups)
       \<and> (0 \<le> get_source_credibility (a_source_name article)
          \<and> (\<forall>g \<in> set groups. \<not> same_incident fp fromisoformat g enriched (get_default (a_publishedAt article) now))
          \<longrightarrow> group_step fp fromisoformat now groups (article, enriched)
                = groups @ [new_group fp (article_source now article enriched) enriched])
       \<and> (\<forall>i. 0 \<le> get_source_credibility (a_source_name article)
          \<and> i < length groups
          \<and> same_incident fp fromisoformat (groups ! i) enriched (get_default (a_publishedAt article) now)
          \<and> (\<forall>j < i. \<not> same_incident fp fromisoformat (groups ! j) enriched (get_default (a_publishedAt article) now))
          \<longrightarrow> group_step fp fromisoformat now groups (article, enriched)
                = groups[i := attach fp (groups ! i) (article_source now article enriched) enriched])"
proof (intro conjI impI allI)
  assume "get_source_credibility (a_source_name article) < 0"
  then show "group_step fp fromisoformat now groups (article, enriched) = groups"
    by (simp add: group_step_def Let_def)
next
  assume a: "0 \<le> get_source_credibility (a_source_name article)
          \<and> (\<forall>g \<in> set groups. \<not> same_incident fp fromisoformat g enriched (get_default (a_publishedAt article) now))"
  then have "add_to_first_match fp fromisoformat (article_source now article enriched) enriched
               (get_default (a_publishedAt article) now) groups = None"
    using add_to_first_match_None [OF ne] by simp
  then show "group_step fp fromisoformat now groups (article, enriched)
                = groups @ [new_group fp (article_source now article enriched) enriched]"
    using a unfolding group_step_def Let_def new_group_def
    by (simp add: article_source_def [symmetric] add_source_attach)
next
  fix i
  assume a: "0 \<le> get_source_credibility (a_source_name article)
          \<and> i < length groups
          \<and> same_incident fp fromisoformat (groups ! i) enriched (get_default (a_publishedAt article) now)
          \<and> (\<forall>j < i. \<not> same_incident fp fromisoformat (groups ! j) enriched (get_default (a_publishedAt article) now))"
  then have "add_to_first_match fp fromisoformat (article_source now article enriched) enriched
               (get_default (a_publishedAt article) now) groups
             = Some (groups[i := attach fp (groups ! i) (article_source now article enriched) enriched])"
    using add_to_first_match_first [OF ne] by simp
  then show "group_step fp fromisoformat now groups (article, enriched)
                = groups[i := attach fp (groups ! i) (article_source now article enriched) enriched]"
    using a unfolding group_step_def Let_def
    by (simp add: article_source_def [symmetric])
qed

text \<open>
  \<^bold>\<open>C5.\<close> \<^verbatim>\<open>group_by_incident\<close> starts from no group and reads the articles in input order.
  An article of negative credibility changes nothing. Any other article is attached to the
  first group, in creation order, that has its category, whose centroid is within the
  category's radius of it (Euclidean distance in degrees, not exceeding 0.1 for MILITARY, 0.3
  for UNREST, 0.5 otherwise) and one of whose sources is within 12 hours of it; the attach
  appends the source and the severity and moves the centroid to \<open>(old * (n - 1) + new) / n\<close>.
  When no group qualifies, a new group with the article as its only source is appended.
  Distance and mean are those binary64 computes, whatever its operations return.
\<close>

theorem C5_first_fit_grouping:
  "group_by_incident fp fromisoformat [] = []
   \<and> (get_source_credibility (a_source_name article) < 0 \<longrightarrow>
        group_by_incident fp fromisoformat (xs @ [((article, enriched), now)])
          = group_by_incident fp fromisoformat xs)
   \<and> (0 \<le> get_source_credibility (a_source_name article)
      \<and> (\<forall>g \<in> set (group_by_incident fp fromisoformat xs).
            \<not> same_incident fp fromisoformat g enriched (get_default (a_publishedAt article) now))
      \<longrightarrow> group_by_incident fp fromisoformat (xs @ [((article, enriched), now)])
            = group_by_incident fp fromisoformat xs
                @ [new_group fp (article_source now article enriched) enriched])
   \<and> (\<forall>i. 0 \<le> get_source_credibility (a_source_name article)
      \<and> i < length (group_by_incident fp fromisoformat xs)
      \<and> same_incident fp fromisoformat (group_by_incident fp fromisoformat xs ! i) enriched
            (get_default (a_publishedAt article) now)
      \<and> (\<forall>j < i. \<not> same_incident fp fromisoformat (group_by_incident fp fromisoformat xs ! j) enriched
            (get_default (a_publishedAt article) now))
      \<longrightarrow> group_by_incident fp fromisoformat (xs @ [((article, enriched), now)])
            = (group_by_incident fp fromisoformat xs)
                [i := attach fp (group_by_incident fp fromisoformat xs ! i)
                        (article_source now article enriched) enriched])"
proof -
  have ne: "list_all (\<lambda>g. ig_sources g \<noteq> []) (group_by_incident fp fromisoformat xs)"
    by (rule group_by_incident_nonempty)
  have "group_by_incident fp fromisoformat [] = []"
    by (simp add: group_by_incident_def)
  then show ?thesis
    using group_step_spec [OF ne, where fromisoformat = fromisoformat and now = now
        and article = article and enriched = enriched]
    by (simp add: group_by_incident_snoc)
qed

lemma utc_us_10: "utc_us \<lparr>year = 2026, month = 1, day = 21, hour = 10, minute = 0, second = 0, microsecond = 0, utcoffset = 0\<rparr> = 63904672800000000"
  by (simp add: utc_us_def wall_us_def toordinal_def days_before_year_def days_before_month_def is_leap_def)

lemma utc_us_13: "utc_us \<lparr>year = 2026, month = 1, day = 21, hour = 13, minute = 0, second = 0, microsecond = 0, utcoffset = 0\<rparr> = 63904683600000000"
  by (simp add: utc_us_def wall_us_def toordinal_def days_before_year_def days_before_month_def is_leap_def)

lemma sqrt_sample: "sqrt (1 / 256) = 1 / 16"
  by (rule real_sqrt_unique) (simp_all add: power2_eq_square)

lemma sample_first:
  "group_by_incident exact_arithmetic fromisoformat_sample [((kyiv_1, enriched_1), now)]
     = [new_group exact_arithmetic (article_source now kyiv_1 enriched_1) enriched_1]"
  using C5_first_fit_grouping [where fp = exact_arithmetic and fromisoformat = fromisoformat_sample
      and now = now and article = kyiv_1 and xs = "[]" and enriched = enriched_1]
  by (simp add: kyiv_1_def credibility_reuters)

lemma sample_new_group:
  "new_group exact_arithmetic s enriched_1
     = \<lparr>ig_category = ''MILITARY'', ig_lng = 30.5, ig_lat = 50.5, ig_location_name = ''Kyiv, Ukraine'',
        ig_sources = [s], ig_severities = [7]\<rparr>"
  by (simp add: new_group_def attach_def running_mean_def exact_arithmetic_def enriched_1_def)

lemma sample_same_incident:
  "same_incident exact_arithmetic fromisoformat_sample
     (new_group exact_arithmetic (article_source now kyiv_1 enriched_1) enriched_1)
     enriched_2 (get_default (a_publishedAt kyiv_2) now')"
proof -
  have d: "euclidean_distance exact_arithmetic (61 / 2, 101 / 2) (489 / 16, 101 / 2) = 1 / 16"
    by (simp add: euclidean_distance_def exact_arithmetic_def sqrt_sample)
  show ?thesis
    unfolding sample_new_group
    by (simp add: same_incident_def d article_source_def enriched_2_def
        kyiv_1_def kyiv_2_def get_default_def category_radius_def
        parse_timestamp_def replace_Z_def fromisoformat_sample_def abs_diff_us_def utc_us_10 utc_us_13
        hours_us_def)
qed

theorem C5_witness:
  "map (\<lambda>g. (length (ig_sources g), ig_severities g, ig_lng g, ig_lat g))
     (group_by_incident exact_arithmetic fromisoformat_sample
        [((kyiv_1, enriched_1), now_sample), ((kyiv_2, enriched_2), now_sample)])
   = [(2, [7, 8], 30.53125, 50.5)]"
proof -
  have "group_by_incident exact_arithmetic fromisoformat_sample
          ([((kyiv_1, enriched_1), now_sample)] @ [((kyiv_2, enriched_2), now_sample)])
      = [attach exact_arithmetic
           (new_group exact_arithmetic (article_source now_sample kyiv_1 enriched_1) enriched_1)
           (article_source now_sample kyiv_2 enriched_2) enriched_2]"
    using C5_first_fit_grouping [where fp = exact_arithmetic and fromisoformat = fromisoformat_sample
        and now = now_sample and article = kyiv_2 and xs = "[((kyiv_1, enriched_1), now_sample)]"
        and enriched = enriched_2]
      sample_same_incident [of now_sample now_sample]
    by (simp add: sample_first kyiv_2_def credibility_reuters)
  then have g: "group_by_incident exact_arithmetic fromisoformat_sample
          [((kyiv_1, enriched_1), now_sample), ((kyiv_2, enriched_2), now_sample)]
      = [attach exact_arithmetic
           (new_group exact_arithmetic (article_source now_sample kyiv_1 enriched_1) enriched_1)
           (article_source now_sample kyiv_2 enriched_2) enriched_2]"
    by simp
  show ?thesis
    unfolding g sample_new_group
    by (simp add: attach_def running_mean_def exact_arithmetic_def enriched_2_def)
qed

text \<open>
  \<^bold>\<open>C9.\<close> \<^verbatim>\<open>group_by_incident\<close> gives the same groups as on the input without the
  articles of negative credibility, and no source of a returned group has negative
  credibility. \<^verbatim>\<open>get_source_credibility\<close> is 0 without a name; otherwise, on the name
  in lower case and stripped, it is the table's score on an exact match, else the score of the
  first table entry that contains the name or is contained in it, else 0.
\<close>

theorem C9_negative_credibility_dropped:
  "group_by_incident fp fromisoformat xs
     = group_by_incident fp fromisoformat
         (filter (\<lambda>timed. 0 \<le> get_source_credibility (a_source_name (fst (fst timed)))) xs)
   \<and> (\<forall>g \<in> set (group_by_incident fp fromisoformat xs). \<forall>s \<in> set (ig_sources g).
         0 \<le> get_source_credibility (Some (es_source_name s)))
   \<and> get_source_credibility None = 0
   \<and> get_source_credibility (Some []) = 0
   \<and> (name \<noteq> [] \<longrightarrow>
        (\<forall>score. map_of SOURCE_CREDIBILITY (py_strip (py_lower name)) = Some score
            \<longrightarrow> get_source_credibility (Some name) = score)
      \<and> (map_of SOURCE_CREDIBILITY (py_strip (py_lower name)) = None \<longrightarrow>
            (\<forall>i < length SOURCE_CREDIBILITY.
                partial_match (py_strip (py_lower name)) (SOURCE_CREDIBILITY ! i)
              \<and> (\<forall>j < i. \<not> partial_match (py_strip (py_lower name)) (SOURCE_CREDIBILITY ! j))
              \<longrightarrow> get_source_credibility (Some name) = snd (SOURCE_CREDIBILITY ! i))
          \<and> ((\<forall>entry \<in> set SOURCE_CREDIBILITY. \<not> partial_match (py_strip (py_lower name)) entry)
              \<longrightarrow> get_source_credibility (Some name) = 0)))"
proof -
  have filt: "(\<lambda>timed. \<not> get_source_credibility (a_source_name (fst (fst timed))) < 0)
            = (\<lambda>timed. 0 \<le> get_source_credibility (a_source_name (fst (fst timed))))"
    by (auto simp: fun_eq_iff)
  have 1: "group_by_incident fp fromisoformat xs
     = group_by_incident fp fromisoformat
         (filter (\<lambda>timed. 0 \<le> get_source_credibility (a_source_name (fst (fst timed)))) xs)"
    unfolding group_by_incident_def
    using foldl_group_step_filter [of fp fromisoformat "[]" xs] by (simp add: filt)
  have "list_all credible_sources (group_by_incident fp fromisoformat xs)"
    unfolding group_by_incident_def by (rule foldl_group_step_credible) simp
  then have 2: "\<forall>g \<in> set (group_by_incident fp fromisoformat xs). \<forall>s \<in> set (ig_sources g).
         0 \<le> get_source_credibility (Some (es_source_name s))"
    by (simp add: list_all_iff credible_sources_def)
  have 3: "get_source_credibility None = 0" "get_source_credibility (Some []) = 0"
    by (simp_all add: get_source_credibility_def)
  have 4: "get_source_credibility (Some name) = score"
    if "name \<noteq> []" "map_of SOURCE_CREDIBILITY (py_strip (py_lower name)) = Some score" for score
    using that by (simp add: get_source_credibility_def)
  have 5: "get_source_credibility (Some name) = snd (SOURCE_CREDIBILITY ! i)"
    if "name \<noteq> []" "map_of SOURCE_CREDIBILITY (py_strip (py_lower name)) = None"
      "i < length SOURCE_CREDIBILITY"
      "partial_match (py_strip (py_lower name)) (SOURCE_CREDIBILITY ! i)"
      "\<forall>j < i. \<not> partial_match (py_strip (py_lower name)) (SOURCE_CREDIBILITY ! j)" for i
  proof -
    have "find (partial_match (py_strip (py_lower name))) SOURCE_CREDIBILITY
            = Some (SOURCE_CREDIBILITY ! i)"
      using that(3,4,5) by (auto simp: find_Some_iff)
    then show ?thesis using that(1,2) by (simp add: get_source_credibility_def)
  qed
  have 6: "get_source_credibility (Some name) = 0"
    if "name \<noteq> []" "map_of SOURCE_CREDIBILITY (py_strip (py_lower name)) = None"
      "\<forall>entry \<in> set SOURCE_CREDIBILITY. \<not> partial_match (py_strip (py_lower name)) entry"
  proof -
    have "find (partial_match (py_strip (py_lower name))) SOURCE_CREDIBILITY = None"
      using that(3) by (auto simp: find_None_iff)
    then show ?thesis using that(1,2) by (simp add: get_source_credibility_def)
  qed
  show ?thesis
    using 1 2 3 4 5 6 by blast
qed

lemma normalized_rt: "py_strip (py_lower '' RT '') = ''rt''"
  by code_simp

theorem C9_witness:
  "group_by_incident exact_arithmetic fromisoformat_sample
       [((kyiv_rt, enriched_1), now_sample), ((kyiv_1, enriched_1), now_sample)]
     = group_by_incident exact_arithmetic fromisoformat_sample [((kyiv_1, enriched_1), now_sample)]
   \<and> get_source_credibility (Some '' RT '') = - 1"
  using C9_negative_credibility_dropped
    [where fp = exact_arithmetic and fromisoformat = fromisoformat_sample
      and xs = "[((kyiv_rt, enriched_1), now_sample), ((kyiv_1, enriched_1), now_sample)]"
      and name = "'' RT ''"]
  by (simp add: kyiv_rt_def kyiv_1_def credibility_rt credibility_reuters normalized_rt
      SOURCE_CREDIBILITY_def)

section \<open>Properties of the synthesis fallback\<close>

lemma clean_text_empty: "clean_text [] = []"
  by (simp add: clean_text_def py_strip_def)

lemma sort_key_hd_min:
  assumes "xs \<noteq> []"
  shows "\<exists>y ys. sort_key f xs = y # ys \<and> y \<in> set xs \<and> (\<forall>x \<in> set xs. f y \<le> f x)"
proof -
  have "sort_key f xs \<noteq> []"
    using assms by (metis length_sort length_0_conv)
  then obtain y ys where eq: "sort_key f xs = y # ys"
    by (cases "sort_key f xs") auto
  have "sorted (map f (y # ys))"
    using sorted_sort_key [of f xs] eq by simp
  then have "\<forall>x \<in> set (y # ys). f y \<le> f x"
    by auto
  moreover have "set (y # ys) = set xs"
    using set_sort [of f xs] eq by simp
  ultimately show ?thesis using eq by auto
qed

lemma source_sort_key_le:
  "(source_sort_key a \<le> source_sort_key b) =
    (get_source_credibility (Some (es_source_name b)) < get_source_credibility (Some (es_source_name a))
     \<or> (get_source_credibility (Some (es_source_name b)) = get_source_credibility (Some (es_source_name a))
        \<and> es_timestamp a \<le> es_timestamp b))"
  by (auto simp: source_sort_key_def less_eq_prod_def)

lemma fallback_sample:
  "synthesize_incident (\<lambda>sorted_sources. Timeout) (ig_sources talks_group)
     = Inr (Some \<lparr>se_title = ''Talks collapse'', se_summary = ''Talks collapsed.'',
                  se_fallout_prediction = '''', se_severity = 5\<rparr>)"
proof -
  have t: "clean_text ''Talks collapse:'' = ''Talks collapse''"
    by code_simp
  have s: "clean_text ''Talks collapsed.'' = ''Talks collapsed.''"
    by code_simp
  show ?thesis
    by (simp add: synthesize_incident_def talks_group_def talks_source_def SynthesizedEvent_def
        t s clean_text_empty clamp_severity_def)
qed

lemma mixed_instants:
  "parse_timestamp fromisoformat_mixed ''2026-01-21T10:00:00Z''
     = Some \<lparr>year = 2026, month = 1, day = 21, hour = 10, minute = 0, second = 0, microsecond = 0, utcoffset = 0\<rparr>"
  "parse_timestamp fromisoformat_mixed ''2026-01-21T10:00:00.500000+00:00''
     = Some \<lparr>year = 2026, month = 1, day = 21, hour = 10, minute = 0, second = 0, microsecond = 500000, utcoffset = 0\<rparr>"
  "utc_us \<lparr>year = 2026, month = 1, day = 21, hour = 10, minute = 0, second = 0, microsecond = 0, utcoffset = 0\<rparr>
     = 63904672800000000"
  "utc_us \<lparr>year = 2026, month = 1, day = 21, hour = 10, minute = 0, second = 0, microsecond = 500000, utcoffset = 0\<rparr>
     = 63904672800500000"
  by code_simp+

lemma tie_break_sample:
  "synthesize_incident (\<lambda>sorted_sources. Failure) [early_source, late_source]
     = Inr (Some \<lparr>se_title = ''Talks stall'', se_summary = ''Talks stalled.'',
                  se_fallout_prediction = '''', se_severity = 5\<rparr>)"
  by code_simp

text \<open>
  \<^bold>\<open>C1.\<close> The fallback of \<^verbatim>\<open>synthesize_incident\<close> is not the one the claim describes.
  With one source of severity 8 and headline \<open>Talks collapse:\<close>, a timed-out synthesis returns
  the severity 5 and the title \<open>Talks collapse\<close>, and \<^verbatim>\<open>process_articles\<close> takes both over;
  the claim, and the fallback branch of \<^verbatim>\<open>process_articles\<close> (which is never reached, since
  \<^verbatim>\<open>synthesize_incident\<close> never returns \<^verbatim>\<open>None\<close>), give the group's maximum 8 and the
  headline as it is. With two sources of the same credibility, stamped
  \<open>2026-01-21T10:00:00Z\<close> and \<open>2026-01-21T10:00:00.500000+00:00\<close>, a failed synthesis takes
  title and summary from the second, half a second later: the tie is broken on the timestamp
  strings, not on the instants.
\<close>

theorem C1_fallback_divergence:
  "synthesize_incident (\<lambda>sorted_sources. Timeout) (ig_sources talks_group)
     = Inr (Some \<lparr>se_title = ''Talks collapse'', se_summary = ''Talks collapsed.'',
                  se_fallout_prediction = '''', se_severity = 5\<rparr>)
   \<and> synthesize_group (\<lambda>sorted_sources. Timeout) talks_group
       = Inr (''Talks collapse'', ''Talks collapsed.'', 5, '''')
   \<and> es_headline talks_source = ''Talks collapse:''
   \<and> get_max_severity talks_group = 8
   \<and> event_content talks_group None = Inr (''Talks collapse:'', ''Talks collapsed.'', 8, '''')
   \<and> synthesize_incident (\<lambda>sorted_sources. Failure) [early_source, late_source]
       = Inr (Some \<lparr>se_title = ''Talks stall'', se_summary = ''Talks stalled.'',
                    se_fallout_prediction = '''', se_severity = 5\<rparr>)
   \<and> es_headline late_source = ''Talks stall''
   \<and> get_source_credibility (Some (es_source_name early_source))
       = get_source_credibility (Some (es_source_name late_source))
   \<and> parse_timestamp fromisoformat_mixed (es_timestamp early_source)
       = Some \<lparr>year = 2026, month = 1, day = 21, hour = 10, minute = 0, second = 0, microsecond = 0, utcoffset = 0\<rparr>
   \<and> parse_timestamp fromisoformat_mixed (es_timestamp late_source)
       = Some \<lparr>year = 2026, month = 1, day = 21, hour = 10, minute = 0, second = 0, microsecond = 500000, utcoffset = 0\<rparr>
   \<and> utc_us \<lparr>year = 2026, month = 1, day = 21, hour = 10, minute = 0, second = 0, microsecond = 0, utcoffset = 0\<rparr>
       < utc_us \<lparr>year = 2026, month = 1, day = 21, hour = 10, minute = 0, second = 0, microsecond = 500000, utcoffset = 0\<rparr>"
proof -
  have 2: "get_max_severity talks_group = 8"
    by (simp add: get_max_severity_def talks_group_def)
  have 3: "synthesize_group (\<lambda>sorted_sources. Timeout) talks_group
       = Inr (''Talks collapse'', ''Talks collapsed.'', 5, '''')"
    using fallback_sample by (simp add: synthesize_group_def event_content_def)
  have 4: "event_content talks_group None = Inr (''Talks collapse:'', ''Talks collapsed.'', 8, '''')"
    using 2 by (simp add: event_content_def) (simp add: talks_group_def talks_source_def)
  show ?thesis
    using fallback_sample 2 3 4 tie_break_sample mixed_instants
    by (simp add: talks_source_def early_source_def late_source_def)
qed

text \<open>What the fallback returns in general: for a non-empty source list, when the synthesis
  call times out or fails, the title and summary are the cleaned (\<^verbatim>\<open>_clean_text\<close>) headline
  and summary of the first of the sources sorted by credibility, highest first, and then by
  timestamp string; the fallout prediction is empty and the severity is 5.\<close>

lemma synthesize_incident_fallback:
  assumes "sources \<noteq> []"
    and "generate_content (sort_key source_sort_key sources) = Timeout
       \<or> generate_content (sort_key source_sort_key sources) = Failure"
  shows "\<exists>src r. synthesize_incident generate_content sources = Inr (Some r)
       \<and> src = hd (sort_key source_sort_key sources)
       \<and> src \<in> set sources
       \<and> (\<forall>s \<in> set sources.
            get_source_credibility (Some (es_source_name s)) < get_source_credibility (Some (es_source_name src))
          \<or> (get_source_credibility (Some (es_source_name s)) = get_source_credibility (Some (es_source_name src))
             \<and> es_timestamp src \<le> es_timestamp s))
       \<and> se_title r = clean_text (es_headline src)
       \<and> se_summary r = clean_text (es_summary src)
       \<and> se_fallout_prediction r = ''''
       \<and> se_severity r = 5"
proof -
  obtain y ys where eq: "sort_key source_sort_key sources = y # ys"
    and mem: "y \<in> set sources"
    and least: "\<forall>x \<in> set sources. source_sort_key y \<le> source_sort_key x"
    using sort_key_hd_min [OF assms(1), of source_sort_key] by blast
  have "synthesize_incident generate_content sources
      = Inr (Some (SynthesizedEvent (es_headline y) (es_summary y) '''' 5))"
    using assms(2) eq by (auto simp: synthesize_incident_def)
  moreover have "\<forall>s \<in> set sources.
            get_source_credibility (Some (es_source_name s)) < get_source_credibility (Some (es_source_name y))
          \<or> (get_source_credibility (Some (es_source_name s)) = get_source_credibility (Some (es_source_name y))
             \<and> es_timestamp y \<le> es_timestamp s)"
    using least by (simp add: source_sort_key_le)
  ultimately show ?thesis
    using eq mem by (simp add: SynthesizedEvent_def clean_text_empty clamp_severity_def)
qed

section \<open>Properties of the merge engine\<close>

lemma take_unseen_seen:
  "take_unseen seen ss = (new, seen') \<Longrightarrow> seen' = seen \<union> set (map es_id ss)"
  by (induction ss arbitrary: seen new seen') (auto split: if_splits prod.splits)

lemma take_unseen_new:
  "take_unseen seen ss = (new, seen') \<Longrightarrow>
   distinct (map es_id new) \<and> set (map es_id new) \<inter> seen = {} \<and> set new \<subseteq> set ss"
proof (induction ss arbitrary: seen new seen')
  case Nil
  then show ?case by simp
next
  case (Cons s ss)
  show ?case
  proof (cases "es_id s \<in> seen")
    case True
    then show ?thesis using Cons.IH [of seen new seen'] Cons.prems by auto
  next
    case False
    then obtain new' where t: "take_unseen (insert (es_id s) seen) ss = (new', seen')"
      and n: "new = s # new'"
      using Cons.prems by (auto split: prod.splits)
    have "distinct (map es_id new') \<and> set (map es_id new') \<inter> insert (es_id s) seen = {}
        \<and> set new' \<subseteq> set ss"
      using Cons.IH [OF t] .
    then show ?thesis using n False by auto
  qed
qed

lemma update_absent: "k \<notin> fst ` set al \<Longrightarrow> AList.update k v al = al @ [(k, v)]"
  by (induction al) auto

lemma map_of_None_absent: "map_of al k = None \<Longrightarrow> k \<notin> fst ` set al"
  by (simp add: map_of_eq_None_iff)

lemma mset_values_update:
  "distinct (map fst al) \<Longrightarrow> (k, v0) \<in> set al \<Longrightarrow>
   mset (map snd (AList.update k v al)) = mset (map snd al) - {#v0#} + {#v#}"
proof (induction al)
  case Nil
  then show ?case by simp
next
  case (Cons p ps)
  show ?case
  proof (cases "fst p = k")
    case True
    then have "p = (k, v0)"
      using Cons.prems by (cases p) (auto simp: image_iff)
    then show ?thesis by simp
  next
    case False
    then have "(k, v0) \<in> set ps" using Cons.prems by auto
    then have "mset (map snd (AList.update k v ps)) = mset (map snd ps) - {#v0#} + {#v#}"
      using Cons.IH Cons.prems by simp
    moreover have "v0 \<in># mset (map snd ps)"
      using \<open>(k, v0) \<in> set ps\<close> by (force simp: image_iff)
    ultimately show ?thesis using False by (simp add: add_mset_diff_bothsides)
  qed
qed

lemma mset_source_ids:
  "mset (source_ids events) = (\<Sum>e \<in># mset events. mset (map es_id (ev_sources e)))"
  by (induction events) (simp_all add: source_ids_def)

lemma find_similar_entry:
  "find_similar_existing_event fromisoformat new_event d = Some entry \<Longrightarrow> entry \<in> set d"
  by (auto simp: find_similar_existing_event_def find_Some_iff split: option.splits)

lemma merge_step_cases:
  assumes "distinct (map fst (existing_by_id st))"
  obtains
    (unchanged) seen' where
      "merge_step fromisoformat st event = st\<lparr>seen_source_ids := seen'\<rparr>"
      "seen_source_ids st \<subseteq> seen'"
  | (merged) key existing new_sources seen' existing' needs_synthesis where
      "map_of (existing_by_id st) key = Some existing"
      "take_unseen (seen_source_ids st) (ge_sources event) = (new_sources, seen')"
      "new_sources \<noteq> []"
      "merge_into existing new_sources (model_dump event) = (existing', needs_synthesis)"
      "merge_step fromisoformat st event =
         st\<lparr>existing_by_id := AList.update key existing' (existing_by_id st),
            seen_source_ids := seen',
            merged_count := merged_count st + 1,
            events_needing_synthesis :=
              events_needing_synthesis st @ (if needs_synthesis then [key] else [])\<rparr>"
  | (added) unique_sources seen' where
      "map_of (existing_by_id st) (ge_id event) = None"
      "take_unseen (seen_source_ids st) (ge_sources event) = (unique_sources, seen')"
      "unique_sources \<noteq> []"
      "merge_step fromisoformat st event =
         st\<lparr>existing_by_id :=
              existing_by_id st @ [(ge_id event, (model_dump event)\<lparr>ev_sources := unique_sources\<rparr>)],
            seen_source_ids := seen',
            new_count := new_count st + 1\<rparr>"
proof -
  obtain new seen' where t: "take_unseen (seen_source_ids st) (ge_sources event) = (new, seen')"
    by (cases "take_unseen (seen_source_ids st) (ge_sources event)") auto
  have sub: "seen_source_ids st \<subseteq> seen'"
    using take_unseen_seen [OF t] by auto
  have src: "ev_sources (model_dump event) = ge_sources event"
    by (simp add: model_dump_def)
  define found where "found =
     (case map_of (existing_by_id st) (ge_id event) of
        Some e \<Rightarrow> Some (ge_id event, e)
      | None \<Rightarrow> find_similar_existing_event fromisoformat (model_dump event) (existing_by_id st))"
  show thesis
  proof (cases found)
    case None
    then have absent: "map_of (existing_by_id st) (ge_id event) = None"
      by (auto simp: found_def split: option.splits)
    show ?thesis
    proof (cases "new = []")
      case True
      then have "merge_step fromisoformat st event = st\<lparr>seen_source_ids := seen'\<rparr>"
        using None t unfolding merge_step_def Let_def found_def [symmetric] by (simp add: src)
      then show ?thesis using unchanged sub by blast
    next
      case False
      then have "merge_step fromisoformat st event =
         st\<lparr>existing_by_id :=
              existing_by_id st @ [(ge_id event, (model_dump event)\<lparr>ev_sources := new\<rparr>)],
            seen_source_ids := seen',
            new_count := new_count st + 1\<rparr>"
        using None t update_absent [OF map_of_None_absent [OF absent]]
        unfolding merge_step_def Let_def found_def [symmetric] by (simp add: src)
      then show ?thesis using added absent t False by blast
    qed
  next
    case (Some entry)
    obtain key existing where entry: "entry = (key, existing)"
      by (cases entry) auto
    have "(key, existing) \<in> set (existing_by_id st)"
      using Some entry find_similar_entry [of fromisoformat "model_dump event" "existing_by_id st" entry]
      by (auto simp: found_def split: option.splits dest: map_of_SomeD)
    then have look: "map_of (existing_by_id st) key = Some existing"
      using assms by simp
    show ?thesis
    proof (cases "new = []")
      case True
      then have "merge_step fromisoformat st event = st\<lparr>seen_source_ids := seen'\<rparr>"
        using Some entry t unfolding merge_step_def Let_def found_def [symmetric] by (simp add: src)
      then show ?thesis using unchanged sub by blast
    next
      case False
      obtain existing' needs where m: "merge_into existing new (model_dump event) = (existing', needs)"
        by (cases "merge_into existing new (model_dump event)") auto
      have "merge_step fromisoformat st event =
         st\<lparr>existing_by_id := AList.update key existing' (existing_by_id st),
            seen_source_ids := seen',
            merged_count := merged_count st + 1,
            events_needing_synthesis :=
              events_needing_synthesis st @ (if needs then [key] else [])\<rparr>"
        using Some entry t False m unfolding merge_step_def Let_def found_def [symmetric]
        by (simp add: src)
      then show ?thesis using merged look t False m by blast
    qed
  qed
qed

lemma grown_refl: "grown e e"
  by (simp add: grown_def split: option.splits)

lemma grown_trans: "grown a b \<Longrightarrow> grown b c \<Longrightarrow> grown a c"
  by (auto simp: grown_def split: option.splits)

lemma merge_into_facts:
  assumes "merge_into existing new_sources event_dict = (existing', needs_synthesis)"
  shows "ev_sources existing' = sort_key es_timestamp (ev_sources existing @ new_sources)"
    and "grown existing existing'"
proof -
  have "existing' =
      existing\<lparr>ev_sources := sort_key es_timestamp (ev_sources existing @ new_sources),
               ev_last_updated :=
                 Some (max (get_default (ev_last_updated existing) (ev_timestamp existing))
                           (get_default (ev_last_updated event_dict) (ev_timestamp event_dict))),
               ev_severity := max (ev_severity existing) (ev_severity event_dict)\<rparr>
    \<or> existing' =
      existing\<lparr>ev_sources := sort_key es_timestamp (ev_sources existing @ new_sources),
               ev_last_updated :=
                 Some (max (get_default (ev_last_updated existing) (ev_timestamp existing))
                           (get_default (ev_last_updated event_dict) (ev_timestamp event_dict))),
               ev_severity := max (ev_severity existing) (ev_severity event_dict),
               ev_last_synthesis_count := Some (int (length (ev_sources existing @ new_sources)))\<rparr>"
    using assms by (auto simp: merge_into_def Let_def split: if_splits)
  then show "ev_sources existing' = sort_key es_timestamp (ev_sources existing @ new_sources)"
    and "grown existing existing'"
    by (auto simp: grown_def effective_last_updated_def get_default_def split: option.splits)
qed

lemma apply_synthesis_facts:
  "ev_sources (apply_synthesis e s) = ev_sources e" "grown e (apply_synthesis e s)"
  by (auto simp: apply_synthesis_def Let_def grown_def effective_last_updated_def split: option.splits)

lemma list_all_update:
  "list_all P al \<Longrightarrow> P (k, v) \<Longrightarrow> list_all P (AList.update k v al)"
  by (induction al) auto

lemma mset_values_update_le:
  assumes "distinct (map fst al)"
  shows "mset (map snd (AList.update k v al)) \<subseteq># mset (map snd al) + {#v#}"
proof (cases "k \<in> fst ` set al")
  case False
  then show ?thesis by (simp add: update_absent)
next
  case True
  then obtain v0 where "(k, v0) \<in> set al" by auto
  then have "mset (map snd (AList.update k v al)) = mset (map snd al) - {#v0#} + {#v#}"
    using mset_values_update [OF assms] by blast
  then show ?thesis by (simp add: diff_subset_eq_self)
qed

lemma build_distinct:
  "distinct (map fst d) \<Longrightarrow> distinct (map fst (foldl (\<lambda>d e. AList.update (ev_id e) e d) d es))"
  by (induction es arbitrary: d) (simp_all add: distinct_update)

lemma build_own_id:
  "list_all (\<lambda>entry. ev_id (snd entry) = fst entry) d \<Longrightarrow>
   list_all (\<lambda>entry. ev_id (snd entry) = fst entry) (foldl (\<lambda>d e. AList.update (ev_id e) e d) d es)"
  by (induction es arbitrary: d) (simp_all add: list_all_update)

lemma build_values:
  "distinct (map fst d) \<Longrightarrow>
   mset (map snd (foldl (\<lambda>d e. AList.update (ev_id e) e d) d es)) \<subseteq># mset (map snd d) + mset es"
proof (induction es arbitrary: d)
  case Nil
  then show ?case by simp
next
  case (Cons e es)
  have "mset (map snd (foldl (\<lambda>d e. AList.update (ev_id e) e d) (AList.update (ev_id e) e d) es))
          \<subseteq># mset (map snd (AList.update (ev_id e) e d)) + mset es"
    using Cons.IH [of "AList.update (ev_id e) e d"] Cons.prems by (simp add: distinct_update)
  also have "\<dots> \<subseteq># (mset (map snd d) + {#e#}) + mset es"
    using mset_values_update_le [OF Cons.prems, of "ev_id e" e] by (simp add: subset_mset.add_mono)
  finally show ?case by (simp add: ac_simps)
qed

lemma build_distinct_ids:
  "distinct (map ev_id es) \<Longrightarrow> set (map ev_id es) \<inter> fst ` set d = {} \<Longrightarrow>
   foldl (\<lambda>d e. AList.update (ev_id e) e d) d es = d @ map (\<lambda>e. (ev_id e, e)) es"
proof (induction es arbitrary: d)
  case Nil
  then show ?case by simp
next
  case (Cons e es)
  have "ev_id e \<notin> fst ` set d" using Cons.prems by auto
  then have u: "AList.update (ev_id e) e d = d @ [(ev_id e, e)]" by (rule update_absent)
  have "set (map ev_id es) \<inter> fst ` set (d @ [(ev_id e, e)]) = {}"
    using Cons.prems by auto
  then show ?case using Cons.IH [of "d @ [(ev_id e, e)]"] Cons.prems u by simp
qed

lemma mset_source_ids_mono:
  assumes "mset xs \<subseteq># mset ys"
  shows "mset (source_ids xs) \<subseteq># mset (source_ids ys)"
proof -
  obtain zs where "mset ys = mset xs + zs"
    using assms by (metis subset_mset.le_iff_add)
  then have "mset (source_ids ys) = mset (source_ids xs) + (\<Sum>e \<in># zs. mset (map es_id (ev_sources e)))"
    by (simp add: mset_source_ids)
  then show ?thesis by simp
qed

lemma set_source_ids_mono:
  "mset xs \<subseteq># mset ys \<Longrightarrow> set (source_ids xs) \<subseteq> set (source_ids ys)"
  using set_mset_mono [OF mset_source_ids_mono] by fastforce

lemma source_ids_update:
  "distinct (map fst al) \<Longrightarrow> (k, v0) \<in> set al \<Longrightarrow>
   mset (source_ids (map snd (AList.update k v al))) + mset (map es_id (ev_sources v0))
     = mset (source_ids (map snd al)) + mset (map es_id (ev_sources v))"
proof (induction al)
  case Nil
  then show ?case by simp
next
  case (Cons p ps)
  show ?case
  proof (cases "fst p = k")
    case True
    then have "p = (k, v0)"
      using Cons.prems by (cases p) (auto simp: image_iff)
    then show ?thesis by (simp add: source_ids_def)
  next
    case False
    then have "(k, v0) \<in> set ps" using Cons.prems by auto
    then have "mset (source_ids (map snd (AList.update k v ps))) + mset (map es_id (ev_sources v0))
     = mset (source_ids (map snd ps)) + mset (map es_id (ev_sources v))"
      using Cons.IH Cons.prems by simp
    then show ?thesis using False by (simp add: source_ids_def)
  qed
qed

lemma merge_init_facts:
  "merge_inv (merge_init existing_data)"
  "mset (map snd (existing_by_id (merge_init existing_data))) \<subseteq># mset existing_data"
  "seen_source_ids (merge_init existing_data) = set (source_ids existing_data)"
proof -
  let ?d = "foldl (\<lambda>d e. AList.update (ev_id e) e d) [] existing_data"
  have d: "distinct (map fst ?d)"
    using build_distinct [of "[]" existing_data] by simp
  have o: "list_all (\<lambda>entry. ev_id (snd entry) = fst entry) ?d"
    using build_own_id [of "[]" existing_data] by simp
  show v: "mset (map snd (existing_by_id (merge_init existing_data))) \<subseteq># mset existing_data"
    using build_values [of "[]" existing_data] by (simp add: merge_init_def)
  show s: "seen_source_ids (merge_init existing_data) = set (source_ids existing_data)"
    by (simp add: merge_init_def source_ids_def)
  have "set (source_ids (map snd ?d)) \<subseteq> set (source_ids existing_data)"
    using set_source_ids_mono [OF v] by (simp add: merge_init_def)
  then show "merge_inv (merge_init existing_data)"
    using d o s by (simp add: merge_inv_def merge_init_def)
qed

lemma source_ids_append: "source_ids (xs @ ys) = source_ids xs @ source_ids ys"
  by (simp add: source_ids_def)

lemma map_of_in_set: "map_of al k = Some v \<Longrightarrow> (k, v) \<in> set al"
  by (rule map_of_SomeD)

text \<open>The source ids added by one turn of the loop.\<close>

lemma merge_step_ids:
  assumes inv: "merge_inv st"
  shows "\<exists>N. mset (source_ids (map snd (existing_by_id (merge_step fromisoformat st event))))
                = mset (source_ids (map snd (existing_by_id st))) + mset N
           \<and> distinct N \<and> set N \<inter> seen_source_ids st = {}
           \<and> set N \<subseteq> seen_source_ids (merge_step fromisoformat st event)
           \<and> seen_source_ids st \<subseteq> seen_source_ids (merge_step fromisoformat st event)"
proof -
  have dist: "distinct (map fst (existing_by_id st))"
    using inv by (simp add: merge_inv_def)
  from dist show ?thesis
  proof (cases rule: merge_step_cases [where st = st and fromisoformat = fromisoformat and event = event])
    case (unchanged seen')
    then show ?thesis by (intro exI [of _ "[]"]) simp
  next
    case (merged key existing new_sources seen' existing' needs_synthesis)
    have new: "distinct (map es_id new_sources)" "set (map es_id new_sources) \<inter> seen_source_ids st = {}"
      using take_unseen_new [OF merged(2)] by auto
    have seen: "seen' = seen_source_ids st \<union> set (map es_id (ge_sources event))"
      using take_unseen_seen [OF merged(2)] .
    have sub: "set new_sources \<subseteq> set (ge_sources event)"
      using take_unseen_new [OF merged(2)] by auto
    have src: "mset (map es_id (ev_sources existing'))
        = mset (map es_id (ev_sources existing)) + mset (map es_id new_sources)"
      using merge_into_facts(1) [OF merged(4)] by simp
    have "mset (source_ids (map snd (AList.update key existing' (existing_by_id st))))
            + mset (map es_id (ev_sources existing))
        = mset (source_ids (map snd (existing_by_id st))) + mset (map es_id (ev_sources existing'))"
      using source_ids_update [OF dist map_of_in_set [OF merged(1)]] .
    then have "mset (source_ids (map snd (AList.update key existing' (existing_by_id st))))
        = mset (source_ids (map snd (existing_by_id st))) + mset (map es_id new_sources)"
      unfolding src by (simp add: ac_simps)
    then show ?thesis
      using merged(5) new seen sub
      by (intro exI [of _ "map es_id new_sources"]) auto
  next
    case (added unique_sources seen')
    have new: "distinct (map es_id unique_sources)"
      "set (map es_id unique_sources) \<inter> seen_source_ids st = {}"
      using take_unseen_new [OF added(2)] by auto
    have seen: "seen' = seen_source_ids st \<union> set (map es_id (ge_sources event))"
      using take_unseen_seen [OF added(2)] .
    have sub: "set unique_sources \<subseteq> set (ge_sources event)"
      using take_unseen_new [OF added(2)] by auto
    show ?thesis
      using added(4) new seen sub
      by (intro exI [of _ "map es_id unique_sources"]) (auto simp: source_ids_append source_ids_def)
  qed
qed

lemma merge_step_inv:
  assumes inv: "merge_inv st"
  shows "merge_inv (merge_step fromisoformat st event)"
proof -
  have dist: "distinct (map fst (existing_by_id st))"
    and own: "list_all (\<lambda>entry. ev_id (snd entry) = fst entry) (existing_by_id st)"
    and seen: "set (source_ids (map snd (existing_by_id st))) \<subseteq> seen_source_ids st"
    and queued: "list_all (\<lambda>key. case map_of (existing_by_id st) key of None \<Rightarrow> False
                                 | Some e \<Rightarrow> ev_sources e \<noteq> []) (events_needing_synthesis st)"
    using inv by (simp_all add: merge_inv_def)
  obtain N where ids: "mset (source_ids (map snd (existing_by_id (merge_step fromisoformat st event))))
                = mset (source_ids (map snd (existing_by_id st))) + mset N"
    and N: "set N \<subseteq> seen_source_ids (merge_step fromisoformat st event)"
    and mono: "seen_source_ids st \<subseteq> seen_source_ids (merge_step fromisoformat st event)"
    using merge_step_ids [OF inv, of fromisoformat event] by blast
  have "set (source_ids (map snd (existing_by_id (merge_step fromisoformat st event))))
      = set (source_ids (map snd (existing_by_id st))) \<union> set N"
    using ids by (metis set_mset_mset set_mset_union)
  then have seen': "set (source_ids (map snd (existing_by_id (merge_step fromisoformat st event))))
      \<subseteq> seen_source_ids (merge_step fromisoformat st event)"
    using seen N mono by auto
  from dist show ?thesis
  proof (cases rule: merge_step_cases [where st = st and fromisoformat = fromisoformat and event = event])
    case (unchanged seen1)
    then show ?thesis using inv seen' by (simp add: merge_inv_def)
  next
    case (merged key existing new_sources seen1 existing' needs_synthesis)
    have "length (ev_sources existing') = length (ev_sources existing @ new_sources)"
      using merge_into_facts(1) [OF merged(4)] by simp
    then have e': "ev_sources existing' \<noteq> []" "ev_id existing' = ev_id existing"
      using merge_into_facts(2) [OF merged(4)] merged(3) by (auto simp: grown_def)
    have "ev_id existing = key"
      using own map_of_in_set [OF merged(1)] by (auto simp: list_all_iff)
    then have own': "list_all (\<lambda>entry. ev_id (snd entry) = fst entry)
                       (AList.update key existing' (existing_by_id st))"
      using own e' by (simp add: list_all_update)
    have "list_all (\<lambda>k. case map_of (AList.update key existing' (existing_by_id st)) k of None \<Rightarrow> False
                         | Some e \<Rightarrow> ev_sources e \<noteq> [])
            (events_needing_synthesis st @ (if needs_synthesis then [key] else []))"
      using queued e' by (auto simp: list_all_iff update_conv' split: option.splits)
    then show ?thesis
      using merged(5) dist own' seen' by (simp add: merge_inv_def distinct_update)
  next
    case (added unique_sources seen1)
    have absent: "ge_id event \<notin> fst ` set (existing_by_id st)"
      using map_of_None_absent [OF added(1)] .
    have "list_all (\<lambda>k. case map_of (existing_by_id st
                @ [(ge_id event, (model_dump event)\<lparr>ev_sources := unique_sources\<rparr>)]) k of
              None \<Rightarrow> False | Some e \<Rightarrow> ev_sources e \<noteq> [])
            (events_needing_synthesis st)"
      using queued by (auto simp: list_all_iff map_add_def split: option.splits)
    then show ?thesis
      using added(4) dist own seen' absent by (simp add: merge_inv_def model_dump_def)
  qed
qed

lemma merge_loop_inv:
  "merge_inv st \<Longrightarrow> merge_inv (foldl (merge_step fromisoformat) st events)"
  by (induction events arbitrary: st) (simp_all add: merge_step_inv)

lemma merge_loop_ids:
  "merge_inv st \<Longrightarrow>
   \<exists>N. mset (source_ids (map snd (existing_by_id (foldl (merge_step fromisoformat) st events))))
          = mset (source_ids (map snd (existing_by_id st))) + mset N
      \<and> distinct N \<and> set N \<inter> seen_source_ids st = {}
      \<and> set N \<subseteq> seen_source_ids (foldl (merge_step fromisoformat) st events)
      \<and> seen_source_ids st \<subseteq> seen_source_ids (foldl (merge_step fromisoformat) st events)"
proof (induction events arbitrary: st)
  case Nil
  show ?case by (intro exI [of _ "[]"]) simp
next
  case (Cons event events)
  let ?st1 = "merge_step fromisoformat st event"
  let ?st2 = "foldl (merge_step fromisoformat) ?st1 events"
  obtain N1 where 1: "mset (source_ids (map snd (existing_by_id ?st1)))
                = mset (source_ids (map snd (existing_by_id st))) + mset N1"
    "distinct N1" "set N1 \<inter> seen_source_ids st = {}" "set N1 \<subseteq> seen_source_ids ?st1"
    "seen_source_ids st \<subseteq> seen_source_ids ?st1"
    using merge_step_ids [OF Cons.prems, of fromisoformat event] by blast
  obtain N2 where 2: "mset (source_ids (map snd (existing_by_id ?st2)))
                = mset (source_ids (map snd (existing_by_id ?st1))) + mset N2"
    "distinct N2" "set N2 \<inter> seen_source_ids ?st1 = {}" "set N2 \<subseteq> seen_source_ids ?st2"
    "seen_source_ids ?st1 \<subseteq> seen_source_ids ?st2"
    using Cons.IH [OF merge_step_inv [OF Cons.prems]] by blast
  have "mset (source_ids (map snd (existing_by_id ?st2)))
                = mset (source_ids (map snd (existing_by_id st))) + mset (N1 @ N2)"
    using 1(1) 2(1) by simp
  moreover have "distinct (N1 @ N2)"
    using 1(2,4) 2(2,3) by auto
  moreover have "set (N1 @ N2) \<inter> seen_source_ids st = {}"
    using 1(3,5) 2(3) by auto
  moreover have "set (N1 @ N2) \<subseteq> seen_source_ids ?st2"
    using 1(4) 2(4,5) by auto
  moreover have "seen_source_ids st \<subseteq> seen_source_ids ?st2"
    using 1(5) 2(5) by auto
  ultimately show ?case
    by (intro exI [of _ "N1 @ N2"]) simp
qed

text \<open>Every event of the dictionary is still there after a turn, grown.\<close>

lemma merge_step_grown:
  assumes inv: "merge_inv st" and look: "map_of (existing_by_id st) k = Some e"
  shows "\<exists>e'. map_of (existing_by_id (merge_step fromisoformat st event)) k = Some e' \<and> grown e e'"
proof -
  have dist: "distinct (map fst (existing_by_id st))"
    using inv by (simp add: merge_inv_def)
  from dist show ?thesis
  proof (cases rule: merge_step_cases [where st = st and fromisoformat = fromisoformat and event = event])
    case (unchanged seen1)
    then show ?thesis using look grown_refl by simp
  next
    case (merged key existing new_sources seen1 existing' needs_synthesis)
    have "grown existing existing'"
      using merge_into_facts(2) [OF merged(4)] .
    then show ?thesis
      using merged(1,5) look grown_refl by (cases "k = key") (simp_all add: update_conv')
  next
    case (added unique_sources seen1)
    then show ?thesis using look grown_refl by (simp add: map_add_def)
  qed
qed

lemma merge_loop_grown:
  "merge_inv st \<Longrightarrow> map_of (existing_by_id st) k = Some e \<Longrightarrow>
   \<exists>e'. map_of (existing_by_id (foldl (merge_step fromisoformat) st events)) k = Some e' \<and> grown e e'"
proof (induction events arbitrary: st e)
  case Nil
  then show ?case using grown_refl by auto
next
  case (Cons event events)
  obtain e1 where 1: "map_of (existing_by_id (merge_step fromisoformat st event)) k = Some e1"
    "grown e e1"
    using merge_step_grown [OF Cons.prems] by blast
  obtain e2 where "map_of (existing_by_id
      (foldl (merge_step fromisoformat) (merge_step fromisoformat st event) events)) k = Some e2"
    "grown e1 e2"
    using Cons.IH [OF merge_step_inv [OF Cons.prems(1)] 1(1)] by blast
  then show ?case using 1(2) grown_trans by auto
qed

lemma entries_grown_refl: "entries_grown d d"
  by (simp add: entries_grown_def list_all2_same grown_refl)

lemma entries_grown_trans:
  assumes "entries_grown a b" and "entries_grown b c"
  shows "entries_grown a c"
  unfolding entries_grown_def
  by (rule list_all2_trans [OF _ assms [unfolded entries_grown_def]]) (auto intro: grown_trans)

lemma entries_grown_update:
  "map_of d k = Some e \<Longrightarrow> grown e v \<Longrightarrow> ev_sources v = ev_sources e \<Longrightarrow>
   entries_grown d (AList.update k v d)"
proof (induction d)
  case Nil
  then show ?case by simp
next
  case (Cons p ps)
  show ?case
  proof (cases "fst p = k")
    case True
    then show ?thesis
      using Cons.prems entries_grown_refl [of ps] by (cases p) (simp add: entries_grown_def)
  next
    case False
    then show ?thesis
      using Cons by (cases p) (simp add: entries_grown_def grown_refl)
  qed
qed

lemma entries_grown_keys: "entries_grown d d' \<Longrightarrow> map fst d' = map fst d"
  unfolding entries_grown_def by (induction d d' rule: list_all2_induct) auto

lemma entries_grown_source_ids:
  "entries_grown d d' \<Longrightarrow> source_ids (map snd d') = source_ids (map snd d)"
  unfolding entries_grown_def by (induction d d' rule: list_all2_induct) (auto simp: source_ids_def)

lemma entries_grown_map_of:
  "entries_grown d d' \<Longrightarrow> map_of d k = Some e \<Longrightarrow> \<exists>e'. map_of d' k = Some e' \<and> grown e e'"
  unfolding entries_grown_def
  by (induction d d' rule: list_all2_induct) (auto split: if_splits)

lemma entries_grown_own_id:
  "entries_grown d d' \<Longrightarrow> list_all (\<lambda>entry. ev_id (snd entry) = fst entry) d \<Longrightarrow>
   list_all (\<lambda>entry. ev_id (snd entry) = fst entry) d'"
  unfolding entries_grown_def
  by (induction d d' rule: list_all2_induct) (auto simp: grown_def)

lemma resynthesis_fold_grown:
  "set (map fst ps) \<subseteq> fst ` set d \<Longrightarrow>
   entries_grown d
     (foldl (\<lambda>d (key, synthesized). AList.update key (apply_synthesis (lookup_event d key) synthesized) d) d ps)"
proof (induction ps arbitrary: d)
  case Nil
  show ?case by (simp add: entries_grown_refl)
next
  case (Cons p ps)
  obtain key synthesized where p: "p = (key, synthesized)" by (cases p) auto
  have "key \<in> fst ` set d" using Cons.prems p by simp
  then obtain e where e: "map_of d key = Some e"
    by (metis map_of_eq_None_iff not_Some_eq)
  let ?d1 = "AList.update key (apply_synthesis (lookup_event d key) synthesized) d"
  have 1: "entries_grown d ?d1"
    using e by (intro entries_grown_update) (simp_all add: lookup_event_def apply_synthesis_facts)
  have "fst ` set ?d1 = fst ` set d"
    using entries_grown_keys [OF 1] by (metis set_map)
  then have "set (map fst ps) \<subseteq> fst ` set ?d1" using Cons.prems by simp
  then show ?case
    using entries_grown_trans [OF 1 Cons.IH [of ?d1]] p by simp
qed

lemma resynthesize_grown:
  assumes "resynthesize client needing d = Inr d'" and "set needing \<subseteq> fst ` set d"
  shows "entries_grown d d'"
proof (cases client)
  case None
  then show ?thesis using assms by (simp add: resynthesize_def entries_grown_refl)
next
  case (Some generate)
  show ?thesis
  proof (cases "needing = []")
    case True
    then show ?thesis using assms Some by (simp add: resynthesize_def entries_grown_refl)
  next
    case False
    then obtain results where
      "d' = foldl (\<lambda>d (key, synthesized). AList.update key (apply_synthesis (lookup_event d key) synthesized) d)
              d (zip needing results)"
      using assms(1) Some by (auto simp: resynthesize_def split: sum.splits)
    moreover have "set (map fst (zip needing results)) \<subseteq> set needing"
      by (auto dest: set_zip_leftD)
    then have "set (map fst (zip needing results)) \<subseteq> fst ` set d"
      using assms(2) by blast
    ultimately show ?thesis using resynthesis_fold_grown by simp
  qed
qed

lemma gather_Inr: "gather rs = Inr xs \<Longrightarrow> rs = map Inr xs"
  by (induction rs arbitrary: xs rule: gather.induct) (auto split: sum.splits)

lemma gather_total: "\<forall>r \<in> set rs. \<exists>x. r = Inr x \<Longrightarrow> \<exists>xs. gather rs = Inr xs"
  by (induction rs rule: gather.induct) auto

lemma synthesize_incident_returns:
  "sources \<noteq> [] \<Longrightarrow> \<exists>r. synthesize_incident generate_content sources = Inr (Some r)"
proof -
  assume "sources \<noteq> []"
  then have "sort_key source_sort_key sources \<noteq> []"
    by (metis length_sort length_0_conv)
  then show ?thesis
    by (cases "sort_key source_sort_key sources")
      (auto simp: synthesize_incident_def Let_def split: llm_response.splits)
qed

lemma resynthesize_total:
  assumes "list_all (\<lambda>key. case map_of d key of None \<Rightarrow> False | Some e \<Rightarrow> ev_sources e \<noteq> []) needing"
  shows "\<exists>d'. resynthesize client needing d = Inr d'"
proof (cases client)
  case None
  then show ?thesis by (simp add: resynthesize_def)
next
  case (Some generate)
  have "\<forall>r \<in> set (map (\<lambda>(i, key). synthesize_incident (generate i) (ev_sources (lookup_event d key)))
                       (enumerate 0 needing)). \<exists>x. r = Inr x"
  proof
    fix r
    assume "r \<in> set (map (\<lambda>(i, key). synthesize_incident (generate i) (ev_sources (lookup_event d key)))
                       (enumerate 0 needing))"
    then obtain i key where ik: "(i, key) \<in> set (enumerate 0 needing)"
      and r: "r = synthesize_incident (generate i) (ev_sources (lookup_event d key))"
      by auto
    have "key \<in> set needing" using ik by (auto simp: in_set_enumerate_eq)
    then have "ev_sources (lookup_event d key) \<noteq> []"
      using assms by (auto simp: list_all_iff lookup_event_def split: option.splits)
    then show "\<exists>x. r = Inr x"
      using synthesize_incident_returns r by blast
  qed
  then obtain results where "gather (map (\<lambda>(i, key). synthesize_incident (generate i) (ev_sources (lookup_event d key)))
                       (enumerate 0 needing)) = Inr results"
    using gather_total by blast
  then show ?thesis using Some by (simp add: resynthesize_def)
qed

lemma retention_score_formula:
  "retention_score fromisoformat e = Inr s \<Longrightarrow>
   \<exists>dt. parse_timestamp fromisoformat (effective_last_updated e) = Some dt
      \<and> s = utc_us dt + hours_us (bonus_hours (ev_severity e))"
  by (auto simp: retention_score_def effective_last_updated_def Let_def bonus_hours_def
      SEVERITY_BONUS_HOURS_def get_default_def split: option.splits if_splits)

lemma sorted_by_retention_facts:
  assumes "sorted_by_retention fromisoformat events = Inr ranked"
  shows "mset ranked = mset events"
    and "\<forall>e \<in> set events. retention_score fromisoformat e = Inr (score_of fromisoformat e)"
    and "sorted_wrt (\<lambda>a b. score_of fromisoformat b \<le> score_of fromisoformat a) ranked"
proof -
  obtain keys where g: "gather (map (retention_score fromisoformat) events) = Inr keys"
    and r: "ranked = map snd (rev (sort_key fst (rev (zip keys events))))"
    using assms by (auto simp: sorted_by_retention_def split: sum.splits)
  have m: "map (retention_score fromisoformat) events = map Inr keys"
    using gather_Inr [OF g] .
  then have len: "length keys = length events"
    by (metis length_map)
  show sc: "\<forall>e \<in> set events. retention_score fromisoformat e = Inr (score_of fromisoformat e)"
  proof
    fix e
    assume "e \<in> set events"
    then obtain i where "i < length events" "events ! i = e"
      by (auto simp: in_set_conv_nth)
    then have "retention_score fromisoformat e = Inr (keys ! i)"
      using m len by (metis nth_map)
    then show "retention_score fromisoformat e = Inr (score_of fromisoformat e)"
      by (simp add: score_of_def)
  qed
  have "keys = map (score_of fromisoformat) events"
  proof (rule nth_equalityI)
    show "length keys = length (map (score_of fromisoformat) events)" using len by simp
  next
    fix i
    assume "i < length keys"
    then have "retention_score fromisoformat (events ! i) = Inr (keys ! i)"
      using m len by (metis nth_map)
    then show "keys ! i = map (score_of fromisoformat) events ! i"
      using \<open>i < length keys\<close> len by (simp add: score_of_def)
  qed
  then have z: "zip keys events = map (\<lambda>e. (score_of fromisoformat e, e)) events"
    by (simp add: zip_map1 zip_same_conv_map)
  let ?zs = "sort_key fst (rev (map (\<lambda>e. (score_of fromisoformat e, e)) events))"
  have "mset (map snd ?zs) = mset events"
    by (simp add: image_mset.compositionality comp_def)
  then show "mset ranked = mset events"
    using r z by (simp add: rev_map [symmetric])
  have eq: "map (score_of fromisoformat \<circ> snd) ?zs = map fst ?zs"
    by (rule map_cong) auto
  have "sorted (map (score_of fromisoformat \<circ> snd) ?zs)"
    unfolding eq by (rule sorted_sort_key)
  then have "sorted (map (score_of fromisoformat) (map snd ?zs))"
    by simp
  then have "sorted_wrt (\<lambda>a b. score_of fromisoformat a \<le> score_of fromisoformat b) (map snd ?zs)"
    by (simp add: sorted_map sorted_wrt_map)
  then have "sorted_wrt (\<lambda>a b. score_of fromisoformat b \<le> score_of fromisoformat a) (rev (map snd ?zs))"
    by (simp add: sorted_wrt_rev)
  then show "sorted_wrt (\<lambda>a b. score_of fromisoformat b \<le> score_of fromisoformat a) ranked"
    using r z by (simp add: rev_map)
qed

lemma sorted_wrt_take_drop:
  "sorted_wrt P xs \<Longrightarrow> \<forall>a \<in> set (take n xs). \<forall>b \<in> set (drop n xs). P a b"
  by (metis append_take_drop_id sorted_wrt_append)

lemma merge_with_existing_Inr:
  assumes "merge_with_existing fromisoformat client new_events existing_data = Inr final"
  obtains events ranked where
    "merged_events fromisoformat client new_events existing_data = Inr events"
    "sorted_by_retention fromisoformat events = Inr ranked"
    "final = take MAX_EVENTS ranked"
  using assms by (auto simp: merge_with_existing_def split: sum.splits)

lemma merged_events_Inr:
  assumes "merged_events fromisoformat client new_events existing_data = Inr events"
  obtains d' where
    "entries_grown
       (existing_by_id (foldl (merge_step fromisoformat) (merge_init existing_data) new_events)) d'"
    "events = map snd d'"
proof -
  let ?st = "foldl (merge_step fromisoformat) (merge_init existing_data) new_events"
  obtain d' where r: "resynthesize client (events_needing_synthesis ?st) (existing_by_id ?st) = Inr d'"
    and e: "events = map snd d'"
    using assms by (auto simp: merged_events_def Let_def split: sum.splits)
  have inv: "merge_inv ?st"
    by (rule merge_loop_inv) (rule merge_init_facts(1))
  have "k \<in> fst ` set (existing_by_id ?st)" if "k \<in> set (events_needing_synthesis ?st)" for k
  proof -
    have "map_of (existing_by_id ?st) k \<noteq> None"
      using inv that by (auto simp: merge_inv_def list_all_iff split: option.splits)
    then show ?thesis by (simp add: map_of_eq_None_iff)
  qed
  then have "set (events_needing_synthesis ?st) \<subseteq> fst ` set (existing_by_id ?st)"
    by blast
  then have "entries_grown (existing_by_id ?st) d'"
    using resynthesize_grown [OF r] by simp
  then show thesis using that e by blast
qed

lemma merged_events_total:
  "\<exists>events. merged_events fromisoformat client new_events existing_data = Inr events"
proof -
  let ?st = "foldl (merge_step fromisoformat) (merge_init existing_data) new_events"
  have "merge_inv ?st"
    by (rule merge_loop_inv) (rule merge_init_facts(1))
  then obtain d' where "resynthesize client (events_needing_synthesis ?st) (existing_by_id ?st) = Inr d'"
    using resynthesize_total [of "existing_by_id ?st" "events_needing_synthesis ?st" client]
    by (auto simp: merge_inv_def)
  then show ?thesis by (simp add: merged_events_def Let_def)
qed

lemma mset_take_subset: "mset (take n xs) \<subseteq># mset xs"
  by (metis append_take_drop_id mset_append mset_subset_eq_add_left)

lemma merge_final_subset:
  assumes "merge_with_existing fromisoformat client new_events existing_data = Inr final"
    and "merged_events fromisoformat client new_events existing_data = Inr events"
  shows "mset final \<subseteq># mset events"
proof -
  obtain ranked where "sorted_by_retention fromisoformat events = Inr ranked"
    "final = take MAX_EVENTS ranked"
    using assms by (auto simp: merge_with_existing_def split: sum.splits)
  then show ?thesis
    using sorted_by_retention_facts(1) mset_take_subset by metis
qed

lemma merge_source_ids:
  assumes "merge_with_existing fromisoformat client new_events existing_data = Inr final"
  shows "\<exists>N. mset (source_ids final) \<subseteq># mset (source_ids existing_data) + mset N
           \<and> distinct N \<and> set N \<inter> set (source_ids existing_data) = {}"
proof -
  let ?init = "merge_init existing_data"
  let ?st = "foldl (merge_step fromisoformat) ?init new_events"
  obtain events where ev: "merged_events fromisoformat client new_events existing_data = Inr events"
    using assms by (rule merge_with_existing_Inr)
  obtain d' where d': "entries_grown (existing_by_id ?st) d'" "events = map snd d'"
    using ev by (rule merged_events_Inr)
  obtain N where N: "mset (source_ids (map snd (existing_by_id ?st)))
          = mset (source_ids (map snd (existing_by_id ?init))) + mset N"
    "distinct N" "set N \<inter> seen_source_ids ?init = {}"
    using merge_loop_ids [OF merge_init_facts(1), where fromisoformat = fromisoformat
        and events = new_events and existing_data1 = existing_data] by blast
  have "mset (source_ids final) \<subseteq># mset (source_ids events)"
    using merge_final_subset [OF assms ev] by (rule mset_source_ids_mono)
  also have "mset (source_ids events) = mset (source_ids (map snd (existing_by_id ?init))) + mset N"
    using d' N(1) entries_grown_source_ids by simp
  also have "\<dots> \<subseteq># mset (source_ids existing_data) + mset N"
    using mset_source_ids_mono [OF merge_init_facts(2), of existing_data] by simp
  finally have "mset (source_ids final) \<subseteq># mset (source_ids existing_data) + mset N" .
  then show ?thesis
    using N(2,3) merge_init_facts(3) [of existing_data] by auto
qed

lemma merge_source_counts:
  assumes "merge_with_existing fromisoformat client new_events existing_data = Inr final"
  shows "x \<in> set (source_ids existing_data) \<Longrightarrow>
           count (mset (source_ids final)) x \<le> count (mset (source_ids existing_data)) x"
    and "x \<notin> set (source_ids existing_data) \<Longrightarrow> count (mset (source_ids final)) x \<le> 1"
proof -
  obtain N where sub: "mset (source_ids final) \<subseteq># mset (source_ids existing_data) + mset N"
    and N: "distinct N" "set N \<inter> set (source_ids existing_data) = {}"
    using merge_source_ids [OF assms] by blast
  have le: "count (mset (source_ids final)) x
        \<le> count (mset (source_ids existing_data)) x + count (mset N) x"
    using mset_subset_eq_count [OF sub, of x] by simp
  show "count (mset (source_ids final)) x \<le> count (mset (source_ids existing_data)) x"
    if "x \<in> set (source_ids existing_data)"
  proof -
    have "x \<notin> set N" using that N(2) by auto
    then have "count (mset N) x = 0" by (simp add: count_eq_zero_iff)
    then show ?thesis using le by linarith
  qed
  show "count (mset (source_ids final)) x \<le> 1" if "x \<notin> set (source_ids existing_data)"
  proof -
    have "count (mset (source_ids existing_data)) x = 0"
      using that by (simp add: count_eq_zero_iff)
    moreover have "count (mset N) x \<le> 1"
      using N(1) by (simp add: distinct_count_atmost_1)
    ultimately show ?thesis using le by linarith
  qed
qed

lemma merge_keeps_distinct:
  assumes "merge_with_existing fromisoformat client new_events existing_data = Inr final"
    and "distinct (source_ids existing_data)"
  shows "distinct (source_ids final)"
    and "\<forall>e \<in> set final. distinct (map es_id (ev_sources e))"
proof -
  have one: "count (mset (source_ids final)) x \<le> 1" for x
  proof (cases "x \<in> set (source_ids existing_data)")
    case True
    have "count (mset (source_ids existing_data)) x \<le> 1"
      using assms(2) by (simp add: distinct_count_atmost_1)
    then show ?thesis using merge_source_counts(1) [OF assms(1) True] by linarith
  next
    case False
    then show ?thesis using merge_source_counts(2) [OF assms(1)] by blast
  qed
  have "count (mset (source_ids final)) a = (if a \<in> set (source_ids final) then 1 else 0)" for a
  proof (cases "a \<in> set (source_ids final)")
    case True
    then have "0 < count (mset (source_ids final)) a" by simp
    then have "count (mset (source_ids final)) a = 1" using one [of a] by linarith
    then show ?thesis using True by simp
  next
    case False
    then show ?thesis by (simp add: count_eq_zero_iff)
  qed
  then show d: "distinct (source_ids final)"
    unfolding distinct_count_atmost_1 by blast
  show "\<forall>e \<in> set final. distinct (map es_id (ev_sources e))"
    using d by (auto simp: source_ids_def distinct_concat_iff)
qed

lemma similar_event_code [code]:
  "similar_event fromisoformat new_event new_dt existing =
    (if ev_category existing \<noteq> ev_category new_event then False
     else if (fst (ev_coordinates new_event) - fst (ev_coordinates existing))\<^sup>2
                 + (snd (ev_coordinates new_event) - snd (ev_coordinates existing))\<^sup>2 > 1 then False
     else (case parse_timestamp fromisoformat (ev_timestamp existing) of
             None \<Rightarrow> False
           | Some ex_dt \<Rightarrow> \<not> abs_diff_us new_dt ex_dt > hours_us 24))"
  unfolding similar_event_def by (simp add: real_less_rsqrt real_le_lsqrt not_less [symmetric] del: not_less)

lemma sample_merge:
  "merge_with_existing fromisoformat_sample None [incoming_kyiv] [persisted_kyiv, persisted_geneva]
     = Inr [persisted_geneva, merged_kyiv]"
  by code_simp

lemma build_map_of_unique:
  "\<forall>e' \<in> set es. ev_id e' = k \<longrightarrow> e' = e \<Longrightarrow>
   map_of (foldl (\<lambda>d e. AList.update (ev_id e) e d) d es) k
     = (if \<exists>e' \<in> set es. ev_id e' = k then Some e else map_of d k)"
proof (induction es arbitrary: d)
  case Nil
  show ?case by simp
next
  case (Cons a es)
  have "\<forall>e' \<in> set es. ev_id e' = k \<longrightarrow> e' = e" using Cons.prems by simp
  from Cons.IH [OF this, of "AList.update (ev_id a) a d"] Cons.prems
  show ?case by (auto simp: update_conv')
qed

lemma merge_survivor_grown:
  assumes m: "merge_with_existing fromisoformat client new_events existing_data = Inr final"
    and i: "e_in \<in> set existing_data"
    and u: "\<forall>e \<in> set existing_data. ev_id e = ev_id e_in \<longrightarrow> e = e_in"
    and o: "e_out \<in> set final"
    and k: "ev_id e_out = ev_id e_in"
  shows "grown e_in e_out"
proof -
  let ?init = "merge_init existing_data"
  let ?st = "foldl (merge_step fromisoformat) ?init new_events"
  obtain events where ev: "merged_events fromisoformat client new_events existing_data = Inr events"
    using m by (rule merge_with_existing_Inr)
  obtain d' where d': "entries_grown (existing_by_id ?st) d'" "events = map snd d'"
    using ev by (rule merged_events_Inr)
  have "map_of (existing_by_id ?init) (ev_id e_in) = Some e_in"
    using build_map_of_unique [OF u, of "[]"] i by (auto simp: merge_init_def)
  then obtain e1 where 1: "map_of (existing_by_id ?st) (ev_id e_in) = Some e1" "grown e_in e1"
    using merge_loop_grown [OF merge_init_facts(1)] by blast
  obtain e2 where 2: "map_of d' (ev_id e_in) = Some e2" "grown e1 e2"
    using entries_grown_map_of [OF d'(1) 1(1)] by blast
  have inv: "merge_inv ?st" by (rule merge_loop_inv) (rule merge_init_facts(1))
  have own: "list_all (\<lambda>entry. ev_id (snd entry) = fst entry) d'"
    using entries_grown_own_id [OF d'(1)] inv by (simp add: merge_inv_def)
  have dist: "distinct (map fst d')"
    using entries_grown_keys [OF d'(1)] inv by (simp add: merge_inv_def)
  have "e_out \<in> set events"
    using merge_final_subset [OF m ev] o by (meson mset_subset_eqD in_multiset_in_set)
  then obtain key where "(key, e_out) \<in> set d'" using d'(2) by auto
  moreover from this own have "key = ev_id e_out" by (auto simp: list_all_iff)
  ultimately have "map_of d' (ev_id e_in) = Some e_out"
    using dist k by simp
  then have "e_out = e2" using 2(1) by simp
  then show ?thesis using grown_trans [OF 1(2) 2(2)] by simp
qed

lemma merge_ranked:
  assumes m: "merge_with_existing fromisoformat client new_events existing_data = Inr final"
  shows "\<exists>events ranked.
           merged_events fromisoformat client new_events existing_data = Inr events
         \<and> mset ranked = mset events
         \<and> sorted_wrt (\<lambda>a b. score_of fromisoformat b \<le> score_of fromisoformat a) ranked
         \<and> final = take MAX_EVENTS ranked
         \<and> (\<forall>kept \<in> set final. \<forall>evicted \<in> set (drop MAX_EVENTS ranked).
              score_of fromisoformat evicted \<le> score_of fromisoformat kept)
         \<and> (\<forall>e \<in> set events. \<exists>dt.
              parse_timestamp fromisoformat (effective_last_updated e) = Some dt
            \<and> score_of fromisoformat e = utc_us dt + hours_us (bonus_hours (ev_severity e)))"
proof -
  obtain events ranked where ev:
    "merged_events fromisoformat client new_events existing_data = Inr events"
    "sorted_by_retention fromisoformat events = Inr ranked"
    "final = take MAX_EVENTS ranked"
    using m by (rule merge_with_existing_Inr)
  note f = sorted_by_retention_facts [OF ev(2)]
  have "\<forall>kept \<in> set final. \<forall>evicted \<in> set (drop MAX_EVENTS ranked).
          score_of fromisoformat evicted \<le> score_of fromisoformat kept"
    using sorted_wrt_take_drop [OF f(3), of MAX_EVENTS] ev(3) by simp
  moreover have "\<forall>e \<in> set events. \<exists>dt.
              parse_timestamp fromisoformat (effective_last_updated e) = Some dt
            \<and> score_of fromisoformat e = utc_us dt + hours_us (bonus_hours (ev_severity e))"
    using f(2) retention_score_formula by blast
  ultimately show ?thesis using ev f(1) f(3) by blast
qed

lemma sorted_wrt_take: "sorted_wrt P xs \<Longrightarrow> sorted_wrt P (take n xs)"
  by (metis append_take_drop_id sorted_wrt_append)

lemma sample_merge_again:
  "merge_with_existing fromisoformat_sample None [incoming_kyiv] [persisted_geneva, merged_kyiv]
     = Inr [persisted_geneva, merged_kyiv]"
  by code_simp

lemma sample_source_ids:
  "source_ids [persisted_kyiv, persisted_geneva] = [''aaaaaaaaaaaaaaaa'', ''cccccccccccccccc'']"
  "source_ids [persisted_geneva, merged_kyiv] = [''cccccccccccccccc'', ''aaaaaaaaaaaaaaaa'', ''bbbbbbbbbbbbbbbb'']"
  by (simp_all add: source_ids_def persisted_kyiv_def persisted_geneva_def merged_kyiv_def
      source_a_def source_b_def source_c_def)

text \<open>C2. Source ids are deduplicated across the whole set. After any call that returns, an id
  of the persisted input occurs in the output at most as often as it did in the input, and
  every other id occurs at most once, over the source lists of all events together. When the
  persisted input has no duplicate source id, neither has the output, and merging the same
  incidents into the output a second time (with any client) again gives source lists without
  duplicate ids.\<close>

theorem C2_global_source_dedup:
  assumes "merge_with_existing fromisoformat client new_events existing_data = Inr final"
  shows "(\<forall>x. count (mset (source_ids final)) x
              \<le> (if x \<in> set (source_ids existing_data)
                  then count (mset (source_ids existing_data)) x else 1))
       \<and> (distinct (source_ids existing_data) \<longrightarrow>
            distinct (source_ids final)
          \<and> (\<forall>e \<in> set final. distinct (map es_id (ev_sources e)))
          \<and> (\<forall>client' final'.
               merge_with_existing fromisoformat client' new_events final = Inr final' \<longrightarrow>
                 distinct (source_ids final')
               \<and> (\<forall>e \<in> set final'. distinct (map es_id (ev_sources e)))))"
proof -
  have "count (mset (source_ids final)) x
          \<le> (if x \<in> set (source_ids existing_data)
              then count (mset (source_ids existing_data)) x else 1)" for x
    using merge_source_counts [OF assms, of x] by simp
  moreover have "distinct (source_ids final)
          \<and> (\<forall>e \<in> set final. distinct (map es_id (ev_sources e)))
          \<and> (\<forall>client' final'.
               merge_with_existing fromisoformat client' new_events final = Inr final' \<longrightarrow>
                 distinct (source_ids final')
               \<and> (\<forall>e \<in> set final'. distinct (map es_id (ev_sources e))))"
    if d: "distinct (source_ids existing_data)"
  proof -
    note 1 = merge_keeps_distinct [OF assms d]
    show ?thesis using 1 merge_keeps_distinct [OF _ 1(1)] by blast
  qed
  ultimately show ?thesis by blast
qed

theorem C2_witness:
  "merge_with_existing fromisoformat_sample None [incoming_kyiv] [persisted_kyiv, persisted_geneva]
     = Inr [persisted_geneva, merged_kyiv]
   \<and> map es_id (ge_sources incoming_kyiv) = [''aaaaaaaaaaaaaaaa'', ''bbbbbbbbbbbbbbbb'']
   \<and> source_ids [persisted_kyiv, persisted_geneva] = [''aaaaaaaaaaaaaaaa'', ''cccccccccccccccc'']
   \<and> count (mset (source_ids [persisted_geneva, merged_kyiv])) ''aaaaaaaaaaaaaaaa'' \<le> 1
   \<and> distinct (source_ids [persisted_geneva, merged_kyiv])
   \<and> merge_with_existing fromisoformat_sample None [incoming_kyiv] [persisted_geneva, merged_kyiv]
     = Inr [persisted_geneva, merged_kyiv]"
  using C2_global_source_dedup [OF sample_merge] sample_merge sample_merge_again
  by (simp add: sample_source_ids incoming_kyiv_def source_a_def source_b_def)

lemma merge_back_sample:
  "merge_with_existing fromisoformat_mixed None [incoming_early] [persisted_late]
     = Inr [persisted_late\<lparr>ev_sources := [late_source, early_source],
                            ev_last_updated := Some ''2026-01-21T10:00:00Z''\<rparr>]"
  by code_simp

text \<open>C3. \<^verbatim>\<open>last_updated\<close> can move back in time. The persisted event was last updated
  at 10:00:00.5, written \<open>2026-01-21T10:00:00.500000+00:00\<close>; the incoming incident of the same
  id brings one new source and the \<^verbatim>\<open>last_updated\<close> \<open>2026-01-21T10:00:00Z\<close>. The call keeps
  the greater of the two strings, which is the second, so that the event comes out last
  updated at 10:00:00, half a second before its input value. (Severity and \<^verbatim>\<open>timestamp\<close>
  behave as the claim says: see \<open>merge_survivor_grown\<close>.)\<close>

theorem C3_last_updated_moves_back:
  "merge_with_existing fromisoformat_mixed None [incoming_early] [persisted_late]
     = Inr [persisted_late\<lparr>ev_sources := [late_source, early_source],
                            ev_last_updated := Some ''2026-01-21T10:00:00Z''\<rparr>]
   \<and> ev_last_updated persisted_late = Some ''2026-01-21T10:00:00.500000+00:00''
   \<and> ge_last_updated incoming_early = ''2026-01-21T10:00:00Z''
   \<and> parse_timestamp fromisoformat_mixed ''2026-01-21T10:00:00.500000+00:00''
       = Some \<lparr>year = 2026, month = 1, day = 21, hour = 10, minute = 0, second = 0, microsecond = 500000, utcoffset = 0\<rparr>
   \<and> parse_timestamp fromisoformat_mixed ''2026-01-21T10:00:00Z''
       = Some \<lparr>year = 2026, month = 1, day = 21, hour = 10, minute = 0, second = 0, microsecond = 0, utcoffset = 0\<rparr>
   \<and> utc_us \<lparr>year = 2026, month = 1, day = 21, hour = 10, minute = 0, second = 0, microsecond = 0, utcoffset = 0\<rparr>
       < utc_us \<lparr>year = 2026, month = 1, day = 21, hour = 10, minute = 0, second = 0, microsecond = 500000, utcoffset = 0\<rparr>"
  using merge_back_sample mixed_instants
  by (simp add: persisted_late_def incoming_early_def)

text \<open>C4. A call that returns gives at most \<^verbatim>\<open>MAX_EVENTS\<close> = 500 events. They are the first
  500 of the merged events ranked by retention score, highest first: no evicted event has a
  higher score than a kept one, and the kept events are events of the merged set as they are,
  with their whole source lists. The score of an event is the instant of its
  \<^verbatim>\<open>last_updated\<close> (of its \<^verbatim>\<open>timestamp\<close> where that key is absent) plus 168 hours at severity
  10, 120 at 9, 72 at 8, 48 at 7 and nothing otherwise.\<close>

theorem C4_retention_bound:
  assumes "merge_with_existing fromisoformat client new_events existing_data = Inr final"
  shows "length final \<le> MAX_EVENTS \<and> MAX_EVENTS = 500
       \<and> sorted_wrt (\<lambda>a b. score_of fromisoformat b \<le> score_of fromisoformat a) final
       \<and> (\<exists>events ranked.
           merged_events fromisoformat client new_events existing_data = Inr events
         \<and> mset ranked = mset events
         \<and> sorted_wrt (\<lambda>a b. score_of fromisoformat b \<le> score_of fromisoformat a) ranked
         \<and> final = take MAX_EVENTS ranked
         \<and> (\<forall>kept \<in> set final. \<forall>evicted \<in> set (drop MAX_EVENTS ranked).
              score_of fromisoformat evicted \<le> score_of fromisoformat kept)
         \<and> (\<forall>e \<in> set events. \<exists>dt.
              parse_timestamp fromisoformat (effective_last_updated e) = Some dt
            \<and> score_of fromisoformat e = utc_us dt + hours_us (bonus_hours (ev_severity e))))"
proof -
  obtain events ranked where r:
    "merged_events fromisoformat client new_events existing_data = Inr events"
    "mset ranked = mset events"
    "sorted_wrt (\<lambda>a b. score_of fromisoformat b \<le> score_of fromisoformat a) ranked"
    "final = take MAX_EVENTS ranked"
    "\<forall>kept \<in> set final. \<forall>evicted \<in> set (drop MAX_EVENTS ranked).
        score_of fromisoformat evicted \<le> score_of fromisoformat kept"
    "\<forall>e \<in> set events. \<exists>dt.
        parse_timestamp fromisoformat (effective_last_updated e) = Some dt
      \<and> score_of fromisoformat e = utc_us dt + hours_us (bonus_hours (ev_severity e))"
    using merge_ranked [OF assms] by blast
  have "length final \<le> MAX_EVENTS" using r(4) by simp
  moreover have "MAX_EVENTS = 500" by (simp add: MAX_EVENTS_def)
  moreover have "sorted_wrt (\<lambda>a b. score_of fromisoformat b \<le> score_of fromisoformat a) final"
    using r(3) r(4) sorted_wrt_take by blast
  ultimately show ?thesis using r by blast
qed

theorem C4_witness:
  "merge_with_existing fromisoformat_sample None [incoming_kyiv] [persisted_kyiv, persisted_geneva]
     = Inr [persisted_geneva, merged_kyiv]
   \<and> length [persisted_geneva, merged_kyiv] \<le> MAX_EVENTS
   \<and> score_of fromisoformat_sample merged_kyiv \<le> score_of fromisoformat_sample persisted_geneva"
  using C4_retention_bound [OF sample_merge] sample_merge
  by simp

end
